theory Spec2Isabelle
  imports Main "HOL-Library.Multiset" "HOL-Library.Sublist" "HOL-Library.List_Lexorder"
    "HOL-Library.Code_Target_Nat"
begin

section \<open>JavaScript strings and the slug helper (helpers/slugify.js)\<close>

text \<open>
  A JavaScript string is a sequence of UTF-16 code units; a code unit is modelled by its
  number. \<open>js\<close> turns an ASCII literal of the source into such a sequence.
\<close>

type_synonym jsstring = "nat list"

definition js :: "string \<Rightarrow> jsstring" where
  "js s = map of_char s"

text \<open>
  \<open>String.prototype.normalize('NFKD')\<close> and \<open>String.prototype.toLowerCase\<close> are driven by
  the Unicode tables of the JavaScript engine, which are not part of the repository. They are
  parameters of the model.
\<close>

record unicode_rt =
  normalize_NFKD :: "jsstring \<Rightarrow> jsstring"
  toLowerCase :: "jsstring \<Rightarrow> jsstring"

definition dash :: nat where
  "dash = of_char CHR ''-''"

definition ampersand :: nat where
  "ampersand = of_char CHR ''&''"

text \<open>The character class of the code units \<open>0x300\<close> to \<open>0x36f\<close> (combining marks).\<close>

definition is_combining :: "nat \<Rightarrow> bool" where
  "is_combining c \<longleftrightarrow> 0x300 \<le> c \<and> c \<le> 0x36f"

text \<open>The character class \<open>[a-z0-9]\<close>.\<close>

definition is_az09 :: "nat \<Rightarrow> bool" where
  "is_az09 c \<longleftrightarrow>
     (of_char CHR ''a'' \<le> c \<and> c \<le> of_char CHR ''z'') \<or>
     (of_char CHR ''0'' \<le> c \<and> c \<le> of_char CHR ''9'')"

text \<open>The replacement of every combining mark by the empty string.\<close>

definition strip_combining :: "jsstring \<Rightarrow> jsstring" where
  "strip_combining s = filter (\<lambda>c. \<not> is_combining c) s"

text \<open>\<open>.replace(/&/g, ' und ')\<close>\<close>

definition replace_ampersand :: "jsstring \<Rightarrow> jsstring" where
  "replace_ampersand s = concat (map (\<lambda>c. if c = ampersand then js '' und '' else [c]) s)"

text \<open>
  \<open>.replace(/[^a-z0-9]+/g, '-')\<close>: every maximal run of code units outside \<open>[a-z0-9]\<close>
  becomes one dash.
\<close>

function hyphenate_runs :: "jsstring \<Rightarrow> jsstring" where
  "hyphenate_runs [] = []"
| "hyphenate_runs (c # cs) =
     (if is_az09 c then c # hyphenate_runs cs
      else dash # hyphenate_runs (dropWhile (\<lambda>d. \<not> is_az09 d) cs))"
  by pat_completeness auto
termination
  by (relation "measure length") (auto simp: less_Suc_eq_le length_dropWhile_le)

text \<open>
  \<open>.replace(/^-+|-+$/g, '')\<close>: the run of dashes at the start and the run of dashes at the
  end are removed.
\<close>

definition trim_dashes :: "jsstring \<Rightarrow> jsstring" where
  "trim_dashes s = rev (dropWhile (\<lambda>c. c = dash) (rev (dropWhile (\<lambda>c. c = dash) s)))"

text \<open>\<open>.replace(/-{2,}/g, '-')\<close>: a run of two or more dashes becomes one dash.\<close>

fun squeeze_dashes :: "jsstring \<Rightarrow> jsstring" where
  "squeeze_dashes (a # b # cs) =
     (if a = dash \<and> b = dash then squeeze_dashes (b # cs) else a # squeeze_dashes (b # cs))"
| "squeeze_dashes cs = cs"

text \<open>
  \<open>slugify(input)\<close>, for a string input: the guard \<open>if (!input) return ''\<close> is taken by the
  empty string.
\<close>

definition slugify :: "unicode_rt \<Rightarrow> jsstring \<Rightarrow> jsstring" where
  "slugify rt input =
     (if input = [] then []
      else squeeze_dashes (trim_dashes (hyphenate_runs (replace_ampersand
             (toLowerCase rt (strip_combining (normalize_NFKD rt input)))))))"

text \<open>
  On ASCII text \<open>normalize('NFKD')\<close> changes nothing and \<open>toLowerCase\<close> maps \<open>A\<close>-\<open>Z\<close> to
  \<open>a\<close>-\<open>z\<close>; \<open>ascii_rt\<close> is that behaviour, used to run the model on ASCII inputs.
\<close>

definition ascii_lower :: "nat \<Rightarrow> nat" where
  "ascii_lower c = (if of_char CHR ''A'' \<le> c \<and> c \<le> of_char CHR ''Z'' then c + 32 else c)"

definition ascii_rt :: unicode_rt where
  "ascii_rt = \<lparr> normalize_NFKD = (\<lambda>s. s), toLowerCase = map ascii_lower \<rparr>"

text \<open>
  The shape of every result of \<open>slugify\<close>: only \<open>[a-z0-9]\<close> and single dashes, no dash at
  either end.
\<close>

definition slug_text :: "jsstring \<Rightarrow> bool" where
  "slug_text s \<longleftrightarrow> (\<forall>c\<in>set s. is_az09 c \<or> c = dash)"

definition is_slug :: "jsstring \<Rightarrow> bool" where
  "is_slug s \<longleftrightarrow> slug_text s \<and> \<not> sublist [dash, dash] s \<and>
     (s = [] \<or> (hd s \<noteq> dash \<and> last s \<noteq> dash))"

section \<open>Strings as SQLite holds them\<close>

text \<open>
  better-sqlite3 binds a JavaScript string to a statement as UTF-8 text, and a \<open>TEXT\<close>
  column is read back as a JavaScript string. UTF-8 has no encoding of a surrogate on its
  own: a high surrogate (\<open>0xD800\<close> to \<open>0xDBFF\<close>) that is not followed by a low one
  (\<open>0xDC00\<close> to \<open>0xDFFF\<close>), and a low surrogate that does not follow a high one, is
  written as the replacement character \<open>U+FFFD\<close>. \<open>utf8\<close> is the text that is bound, as
  bytes; \<open>to_text\<close> is the string that is read back from it. A string without unpaired
  surrogates is read back as it was.
\<close>

definition is_high :: "nat \<Rightarrow> bool" where
  "is_high c \<longleftrightarrow> 0xD800 \<le> c \<and> c \<le> 0xDBFF"

definition is_low :: "nat \<Rightarrow> bool" where
  "is_low c \<longleftrightarrow> 0xDC00 \<le> c \<and> c \<le> 0xDFFF"

fun to_text :: "jsstring \<Rightarrow> jsstring" where
  "to_text [] = []"
| "to_text [c] = (if is_high c \<or> is_low c then [0xFFFD] else [c])"
| "to_text (c # d # cs) =
     (if is_high c \<and> is_low d then c # d # to_text cs
      else if is_high c \<or> is_low c then 0xFFFD # to_text (d # cs)
      else c # to_text (d # cs))"

text \<open>The bytes of one code unit that is not part of a pair, and of a surrogate pair.\<close>

definition utf8_unit :: "nat \<Rightarrow> nat list" where
  "utf8_unit c =
     (if is_high c \<or> is_low c then [0xEF, 0xBF, 0xBD]
      else if c < 0x80 then [c]
      else if c < 0x800 then [0xC0 + c div 64, 0x80 + c mod 64]
      else [0xE0 + c div 4096, 0x80 + (c div 64) mod 64, 0x80 + c mod 64])"

definition utf8_pair :: "nat \<Rightarrow> nat \<Rightarrow> nat list" where
  "utf8_pair c d =
     (let cp = 0x10000 + (c - 0xD800) * 0x400 + (d - 0xDC00)
      in [0xF0 + cp div 262144, 0x80 + (cp div 4096) mod 64, 0x80 + (cp div 64) mod 64,
          0x80 + cp mod 64])"

fun utf8 :: "jsstring \<Rightarrow> nat list" where
  "utf8 [] = []"
| "utf8 [c] = utf8_unit c"
| "utf8 (c # d # cs) =
     (if is_high c \<and> is_low d then utf8_pair c d @ utf8 cs
      else utf8_unit c @ utf8 (d # cs))"

section \<open>The tables of the store (db/index.js, migrate)\<close>

text \<open>
  The SQLite database is modelled by its four data tables. A table is the list of its rows
  in rowid order. A timestamp (\<open>datetime('now')\<close>, a \<open>TEXT\<close> column of the fixed width format
  \<open>YYYY-MM-DD HH:MM:SS\<close>) is modelled by the number of seconds it denotes (an integer), whose order is the
  order of the texts; the clock is an argument of every writing operation. Nullable columns
  (\<open>email\<close>, \<open>password_hash\<close>, \<open>slug\<close>, added by \<open>ALTER TABLE\<close>) are options. A \<open>TEXT\<close>
  column holds the string that is read back from it; every statement binds its string
  arguments with \<open>to_text\<close>.
  \<open>users_seq\<close> and \<open>contents_seq\<close> are the \<open>AUTOINCREMENT\<close> counters of SQLite.
\<close>

type_synonym timestamp = int

record user_row =
  u_id :: int
  u_name :: jsstring
  u_role :: jsstring
  u_created_at :: timestamp
  u_email :: "jsstring option"
  u_password_hash :: "jsstring option"

record content_row =
  c_id :: int
  c_title :: jsstring
  c_description :: jsstring
  c_category :: jsstring
  c_image_path :: jsstring
  c_owner_id :: int
  c_created_at :: timestamp
  c_slug :: "jsstring option"

record like_row =
  l_user_id :: int
  l_content_id :: int
  l_created_at :: timestamp

record favorite_row =
  f_user_id :: int
  f_content_id :: int
  f_created_at :: timestamp

record store =
  users :: "user_row list"
  contents :: "content_row list"
  likes :: "like_row list"
  favorites :: "favorite_row list"
  users_seq :: int
  contents_seq :: int

text \<open>The constraint failures that a statement of the store can raise (\<open>SqliteError\<close>).\<close>

datatype sqlite_error =
  SQLITE_CONSTRAINT_CHECK
  | SQLITE_CONSTRAINT_UNIQUE
  | SQLITE_CONSTRAINT_PRIMARYKEY
  | SQLITE_CONSTRAINT_FOREIGNKEY

text \<open>\<open>CHECK(role IN ('admin','user','editor'))\<close>\<close>

definition ROLES :: "jsstring list" where
  "ROLES = [js ''admin'', js ''user'', js ''editor'']"

text \<open>\<open>CHECK(category IN ('sifi','krimi','horror','komoedie'))\<close>\<close>

definition CATEGORIES :: "jsstring list" where
  "CATEGORIES = [js ''sifi'', js ''krimi'', js ''horror'', js ''komoedie'']"

text \<open>
  \<open>COLLATE NOCASE\<close>. SQLite compares the two texts byte by byte over the length of the
  shorter one, folding the 26 upper case letters of ASCII and nothing else, and stops at
  the first difference and at a zero byte; texts that this does not tell apart are ordered
  by their lengths in bytes. So two texts are equal under \<open>NOCASE\<close> when they have the same
  number of bytes and the same folded bytes before their first zero byte, and the order is
  that of the folded bytes before the first zero byte, then of the lengths.
\<close>

definition nocase_key :: "jsstring \<Rightarrow> nat \<times> nat list" where
  "nocase_key s = (length (utf8 s), map ascii_lower (takeWhile (\<lambda>b. b \<noteq> 0) (utf8 s)))"

definition nocase_less :: "jsstring \<Rightarrow> jsstring \<Rightarrow> bool" where
  "nocase_less a b \<longleftrightarrow>
     snd (nocase_key a) < snd (nocase_key b) \<or>
     (snd (nocase_key a) = snd (nocase_key b) \<and> fst (nocase_key a) < fst (nocase_key b))"

text \<open>
  \<open>INTEGER PRIMARY KEY AUTOINCREMENT\<close>: one more than the largest rowid the table ever had.
\<close>

definition next_rowid :: "int \<Rightarrow> int list \<Rightarrow> int" where
  "next_rowid seq ids = fold max ids seq + 1"

text \<open>
  \<open>CREATE UNIQUE INDEX idx_users_email_nocase ON users(email COLLATE NOCASE)\<close>: does a row
  hold an email equal to the text \<open>e\<close> under \<open>NOCASE\<close>? A \<open>NULL\<close> email never collides.
\<close>

definition email_taken :: "store \<Rightarrow> jsstring \<Rightarrow> bool" where
  "email_taken s e \<longleftrightarrow>
     list_ex (\<lambda>u. case u_email u of None \<Rightarrow> False | Some e0 \<Rightarrow> nocase_key e0 = nocase_key e)
       (users s)"

text \<open>
  \<open>INSERT INTO users (name, email, password_hash, role, created_at) VALUES (?, ?, ?, ?,
  datetime('now'))\<close>: the four strings are bound as text; the \<open>CHECK\<close> on the role, then
  the unique index on the email.
\<close>

definition insert_users_row ::
  "timestamp \<Rightarrow> jsstring \<Rightarrow> jsstring option \<Rightarrow> jsstring option \<Rightarrow> jsstring \<Rightarrow> store
     \<Rightarrow> sqlite_error + int \<times> store" where
  "insert_users_row now name email password_hash role s =
     (if to_text role \<notin> set ROLES then Inl SQLITE_CONSTRAINT_CHECK
      else if (case email of None \<Rightarrow> False | Some e \<Rightarrow> email_taken s (to_text e))
        then Inl SQLITE_CONSTRAINT_UNIQUE
      else
        let rowid = next_rowid (users_seq s) (map u_id (users s))
        in Inr (rowid,
             s\<lparr>users := users s @
                  [\<lparr>u_id = rowid, u_name = to_text name, u_role = to_text role,
                    u_created_at = now, u_email = map_option to_text email,
                    u_password_hash = map_option to_text password_hash\<rparr>],
               users_seq := rowid\<rparr>))"

text \<open>\<open>SELECT 1 FROM contents WHERE slug = ? LIMIT 1\<close>, the \<open>exists\<close> of makeUniqueContentSlug.\<close>

definition slug_exists :: "store \<Rightarrow> jsstring \<Rightarrow> bool" where
  "slug_exists s x \<longleftrightarrow> list_ex (\<lambda>c. c_slug c = Some (to_text x)) (contents s)"

text \<open>
  \<open>INSERT INTO contents (title, description, category, image_path, owner_id, slug, created_at)
  VALUES (?, ?, ?, ?, ?, ?, datetime('now'))\<close>: the five strings are bound as text; the
  \<open>CHECK\<close> on the category, the unique index on the slug, the foreign key to the owner.
\<close>

definition insert_contents_row ::
  "timestamp \<Rightarrow> jsstring \<Rightarrow> jsstring \<Rightarrow> jsstring \<Rightarrow> jsstring \<Rightarrow> int \<Rightarrow> jsstring \<Rightarrow> store
     \<Rightarrow> sqlite_error + int \<times> store" where
  "insert_contents_row now title description category image_path owner_id slug s =
     (if to_text category \<notin> set CATEGORIES then Inl SQLITE_CONSTRAINT_CHECK
      else if slug_exists s slug then Inl SQLITE_CONSTRAINT_UNIQUE
      else if owner_id \<notin> set (map u_id (users s)) then Inl SQLITE_CONSTRAINT_FOREIGNKEY
      else
        let rowid = next_rowid (contents_seq s) (map c_id (contents s))
        in Inr (rowid,
             s\<lparr>contents := contents s @
                  [\<lparr>c_id = rowid, c_title = to_text title,
                    c_description = to_text description, c_category = to_text category,
                    c_image_path = to_text image_path, c_owner_id = owner_id,
                    c_created_at = now, c_slug = Some (to_text slug)\<rparr>],
               contents_seq := rowid\<rparr>))"

text \<open>
  \<open>UPDATE contents SET ... WHERE id = ?\<close> with the assignment \<open>f\<close>: no row of that id
  changes nothing; an assignment that breaks the \<open>CHECK\<close> on the category fails the
  statement; otherwise every row of that id is assigned, and their number is \<open>changes\<close>.
\<close>

definition update_contents_where_id ::
  "(content_row \<Rightarrow> content_row) \<Rightarrow> int \<Rightarrow> store \<Rightarrow> sqlite_error + nat \<times> store" where
  "update_contents_where_id f i s =
     (let hit = filter (\<lambda>c. c_id c = i) (contents s)
      in if list_ex (\<lambda>c. c_category (f c) \<notin> set CATEGORIES) hit
           then Inl SQLITE_CONSTRAINT_CHECK
         else Inr (length hit,
                s\<lparr>contents := map (\<lambda>c. if c_id c = i then f c else c) (contents s)\<rparr>))"

text \<open>
  \<open>DELETE FROM contents WHERE id = ?\<close> under \<open>PRAGMA foreign_keys = ON\<close>: the rows of
  \<open>likes\<close> and \<open>favorites\<close> that reference a deleted row go with it
  (\<open>ON DELETE CASCADE\<close>); \<open>changes\<close> counts the deleted rows of \<open>contents\<close> only.
\<close>

definition delete_contents_where_id :: "int \<Rightarrow> store \<Rightarrow> nat \<times> store" where
  "delete_contents_where_id i s =
     (let gone = map c_id (filter (\<lambda>c. c_id c = i) (contents s))
      in (length gone,
          s\<lparr>contents := filter (\<lambda>c. c_id c \<noteq> i) (contents s),
            likes := filter (\<lambda>l. l_content_id l \<notin> set gone) (likes s),
            favorites := filter (\<lambda>f. f_content_id f \<notin> set gone) (favorites s)\<rparr>))"

text \<open>
  \<open>INSERT INTO likes (user_id, content_id) VALUES (?, ?)\<close>: the primary key
  \<open>(user_id, content_id)\<close>, then the two foreign keys.
\<close>

definition insert_likes_row :: "timestamp \<Rightarrow> int \<Rightarrow> int \<Rightarrow> store \<Rightarrow> sqlite_error + store" where
  "insert_likes_row now uid cid s =
     (if list_ex (\<lambda>l. l_user_id l = uid \<and> l_content_id l = cid) (likes s)
        then Inl SQLITE_CONSTRAINT_PRIMARYKEY
      else if uid \<notin> set (map u_id (users s)) \<or> cid \<notin> set (map c_id (contents s))
        then Inl SQLITE_CONSTRAINT_FOREIGNKEY
      else Inr (s\<lparr>likes := likes s @
                  [\<lparr>l_user_id = uid, l_content_id = cid, l_created_at = now\<rparr>]\<rparr>))"

definition insert_favorites_row :: "timestamp \<Rightarrow> int \<Rightarrow> int \<Rightarrow> store \<Rightarrow> sqlite_error + store" where
  "insert_favorites_row now uid cid s =
     (if list_ex (\<lambda>f. f_user_id f = uid \<and> f_content_id f = cid) (favorites s)
        then Inl SQLITE_CONSTRAINT_PRIMARYKEY
      else if uid \<notin> set (map u_id (users s)) \<or> cid \<notin> set (map c_id (contents s))
        then Inl SQLITE_CONSTRAINT_FOREIGNKEY
      else Inr (s\<lparr>favorites := favorites s @
                  [\<lparr>f_user_id = uid, f_content_id = cid, f_created_at = now\<rparr>]\<rparr>))"

text \<open>
  \<open>FROM contents c LEFT JOIN users u ON u.id = c.owner_id\<close>: a content row with each user
  row of its owner's id, or once with \<open>NULL\<close>s when there is none.
\<close>

definition left_join_owner :: "user_row list \<Rightarrow> content_row \<Rightarrow> (content_row \<times> user_row option) list" where
  "left_join_owner us c =
     (case filter (\<lambda>u. u_id u = c_owner_id c) us of
        [] \<Rightarrow> [(c, None)]
      | m # ms \<Rightarrow> map (\<lambda>u. (c, Some u)) (m # ms))"

definition contents_with_owner :: "store \<Rightarrow> (content_row \<times> user_row option) list" where
  "contents_with_owner s = concat (map (left_join_owner (users s)) (contents s))"

text \<open>
  \<open>ORDER BY\<close>: a stable insertion sort by the relation "comes strictly ahead". Rows that
  the \<open>ORDER BY\<close> terms do not tell apart stay in the order of the scan (SQLite leaves
  their order open).
\<close>

fun insert_by :: "('a \<Rightarrow> 'a \<Rightarrow> bool) \<Rightarrow> 'a \<Rightarrow> 'a list \<Rightarrow> 'a list" where
  "insert_by ahead x [] = [x]"
| "insert_by ahead x (y # ys) =
     (if ahead y x then y # insert_by ahead x ys else x # y # ys)"

definition order_by :: "('a \<Rightarrow> 'a \<Rightarrow> bool) \<Rightarrow> 'a list \<Rightarrow> 'a list" where
  "order_by ahead xs = foldr (insert_by ahead) xs []"

section \<open>The public operations (db/index.js)\<close>

text \<open>
  The module variable \<open>db\<close> is \<open>null\<close> when better-sqlite3 could not be loaded: the handle
  is a \<open>store option\<close>. An operation that writes returns the handle after the call; a thrown
  \<open>SqliteError\<close> is \<open>Inl\<close> and leaves the store as it was.
\<close>

subsection \<open>Users\<close>

record user_view =
  uv_id :: int
  uv_name :: jsstring
  uv_role :: jsstring
  uv_email :: "jsstring option"
  uv_createdAt :: timestamp

text \<open>\<open>new Date('2024-11-02')\<close>, \<open>new Date('2025-01-15')\<close>, \<open>new Date('2025-07-01')\<close> in seconds.\<close>

definition fallbackUsers :: "user_view list" where
  "fallbackUsers =
     [\<lparr>uv_id = 1, uv_name = js ''DB'', uv_role = js ''admin'', uv_email = None,
        uv_createdAt = 1730505600\<rparr>,
      \<lparr>uv_id = 2, uv_name = js ''Fallback'', uv_role = js ''user'', uv_email = None,
        uv_createdAt = 1736899200\<rparr>,
      \<lparr>uv_id = 3, uv_name = js ''Data'', uv_role = js ''editor'', uv_email = None,
        uv_createdAt = 1751328000\<rparr>]"

text \<open>
  \<open>getAllUsers()\<close>: \<open>SELECT id, name, role, email, created_at FROM users ORDER BY id ASC\<close>;
  \<open>r.email || null\<close> turns an empty email into \<open>null\<close>.
\<close>

definition getAllUsers :: "store option \<Rightarrow> user_view list" where
  "getAllUsers db =
     (case db of
        None \<Rightarrow> map (\<lambda>u. u\<lparr>uv_email := None\<rparr>) fallbackUsers
      | Some s \<Rightarrow>
          map (\<lambda>r. \<lparr>uv_id = u_id r, uv_name = u_name r, uv_role = u_role r,
                   uv_email = (case u_email r of None \<Rightarrow> None
                               | Some e \<Rightarrow> if e = [] then None else Some e),
                   uv_createdAt = u_created_at r\<rparr>)
            (order_by (\<lambda>a b. u_id a < u_id b) (users s)))"

text \<open>\<open>insertUser(name, role = 'user')\<close>; \<open>None\<close> is the omitted role.\<close>

definition insertUser ::
  "timestamp \<Rightarrow> jsstring \<Rightarrow> jsstring option \<Rightarrow> store option
     \<Rightarrow> (sqlite_error + int option) \<times> store option" where
  "insertUser now name role db =
     (case db of
        None \<Rightarrow> (Inr None, None)
      | Some s \<Rightarrow>
          (case insert_users_row now name None None
                  (case role of None \<Rightarrow> js ''user'' | Some r \<Rightarrow> r) s of
             Inl e \<Rightarrow> (Inl e, Some s)
           | Inr (rowid, s') \<Rightarrow> (Inr (Some rowid), Some s')))"

text \<open>
  \<open>getUserByEmail(email)\<close>: \<open>SELECT id, name, role, email, password_hash, created_at FROM
  users WHERE email = ?\<close>, first row. The column \<open>email\<close> was added without a \<open>COLLATE\<close>
  clause, so \<open>email = ?\<close> compares with the collation \<open>BINARY\<close>: the stored text
  against the text of the argument, byte by byte. The index \<open>idx_users_email_nocase\<close> does
  not change what the comparison means.
\<close>

definition getUserByEmail :: "jsstring \<Rightarrow> store option \<Rightarrow> user_row option" where
  "getUserByEmail email db =
     (case db of
        None \<Rightarrow> None
      | Some s \<Rightarrow> find (\<lambda>u. u_email u = Some (to_text email)) (users s))"

record new_user =
  nu_name :: jsstring
  nu_email :: "jsstring option"
  nu_passwordHash :: "jsstring option"
  nu_role :: "jsstring option"

text \<open>\<open>createUser({ name, email, passwordHash, role = 'user' })\<close>\<close>

definition createUser ::
  "timestamp \<Rightarrow> new_user \<Rightarrow> store option \<Rightarrow> (sqlite_error + int option) \<times> store option" where
  "createUser now a db =
     (case db of
        None \<Rightarrow> (Inr None, None)
      | Some s \<Rightarrow>
          (case insert_users_row now (nu_name a) (nu_email a) (nu_passwordHash a)
                  (case nu_role a of None \<Rightarrow> js ''user'' | Some r \<Rightarrow> r) s of
             Inl e \<Rightarrow> (Inl e, Some s)
           | Inr (rowid, s') \<Rightarrow> (Inr (Some rowid), Some s')))"

subsection \<open>Contents\<close>

record content_view =
  v_id :: int
  v_title :: jsstring
  v_description :: jsstring
  v_category :: jsstring
  v_imagePath :: jsstring
  v_slug :: "jsstring option"
  v_ownerId :: int
  v_ownerName :: "jsstring option"
  v_createdAt :: timestamp

record content_listing = content_view +
  v_likeCount :: nat

definition view_of :: "content_row \<times> user_row option \<Rightarrow> content_view" where
  "view_of r =
     \<lparr>v_id = c_id (fst r), v_title = c_title (fst r), v_description = c_description (fst r),
      v_category = c_category (fst r), v_imagePath = c_image_path (fst r),
      v_slug = c_slug (fst r), v_ownerId = c_owner_id (fst r),
      v_ownerName = map_option u_name (snd r), v_createdAt = c_created_at (fst r)\<rparr>"

definition listing_of :: "content_row \<times> user_row option \<Rightarrow> nat \<Rightarrow> content_listing" where
  "listing_of r n =
     \<lparr>v_id = c_id (fst r), v_title = c_title (fst r), v_description = c_description (fst r),
      v_category = c_category (fst r), v_imagePath = c_image_path (fst r),
      v_slug = c_slug (fst r), v_ownerId = c_owner_id (fst r),
      v_ownerName = map_option u_name (snd r), v_createdAt = c_created_at (fst r),
      v_likeCount = n\<rparr>"

text \<open>
  \<open>listContents()\<close>: the like count is the correlated subquery
  \<open>(SELECT COUNT(*) FROM likes l WHERE l.content_id = c.id)\<close>; \<open>ORDER BY c.created_at DESC\<close>.
\<close>

definition listContents :: "store option \<Rightarrow> content_listing list" where
  "listContents db =
     (case db of
        None \<Rightarrow> []
      | Some s \<Rightarrow>
          order_by (\<lambda>a b. v_createdAt a > v_createdAt b)
            (map (\<lambda>r. listing_of r (length (filter (\<lambda>l. l_content_id l = c_id (fst r)) (likes s))))
               (contents_with_owner s)))"

text \<open>The rendering of a loop counter in a template literal: decimal digits.\<close>

fun decimal :: "nat \<Rightarrow> jsstring" where
  "decimal n =
     (if n < 10 then [of_char CHR ''0'' + n]
      else decimal (n div 10) @ [of_char CHR ''0'' + n mod 10])"

text \<open>
  \<open>makeUniqueContentSlug(instance, baseSlug)\<close>. The loop \<open>while (exists(`${slug}-${i}`)) i++\<close>
  is \<open>makeUniqueContentSlug_loop\<close>; the counter is a natural number.
\<close>

function makeUniqueContentSlug_loop :: "store \<Rightarrow> jsstring \<Rightarrow> nat \<Rightarrow> jsstring" where
  "makeUniqueContentSlug_loop s slug i =
     (if slug_exists s (slug @ js ''-'' @ decimal i)
        then makeUniqueContentSlug_loop s slug (i + 1)
      else slug @ js ''-'' @ decimal i)"
  by pat_completeness auto

definition makeUniqueContentSlug :: "store \<Rightarrow> jsstring \<Rightarrow> jsstring" where
  "makeUniqueContentSlug s baseSlug =
     (let slug = (if baseSlug = [] then js ''eintrag'' else baseSlug)
      in if \<not> slug_exists s slug then slug
         else makeUniqueContentSlug_loop s slug 2)"

record new_content =
  nc_title :: jsstring
  nc_description :: jsstring
  nc_category :: jsstring
  nc_imagePath :: jsstring
  nc_ownerId :: int

text \<open>\<open>insertContent({ title, description, category, imagePath, ownerId })\<close>\<close>

definition insertContent ::
  "unicode_rt \<Rightarrow> timestamp \<Rightarrow> new_content \<Rightarrow> store option
     \<Rightarrow> (sqlite_error + int option) \<times> store option" where
  "insertContent rt now a db =
     (case db of
        None \<Rightarrow> (Inr None, None)
      | Some s \<Rightarrow>
          (let baseSlug = slugify rt (nc_title a);
               slug = makeUniqueContentSlug s baseSlug
           in case insert_contents_row now (nc_title a) (nc_description a) (nc_category a)
                     (nc_imagePath a) (nc_ownerId a) slug s of
                Inl e \<Rightarrow> (Inl e, Some s)
              | Inr (rowid, s') \<Rightarrow> (Inr (Some rowid), Some s')))"

text \<open>\<open>getContentBySlug(slug)\<close>: \<open>WHERE c.slug = ? LIMIT 1\<close>\<close>

definition getContentBySlug :: "jsstring \<Rightarrow> store option \<Rightarrow> content_view option" where
  "getContentBySlug slug db =
     (case db of
        None \<Rightarrow> None
      | Some s \<Rightarrow>
          (case filter (\<lambda>r. c_slug (fst r) = Some (to_text slug)) (contents_with_owner s) of
             [] \<Rightarrow> None
           | r # _ \<Rightarrow> Some (view_of r)))"

text \<open>\<open>getContentById(id)\<close>: \<open>WHERE c.id = ? LIMIT 1\<close>\<close>

definition getContentById :: "int \<Rightarrow> store option \<Rightarrow> content_view option" where
  "getContentById i db =
     (case db of
        None \<Rightarrow> None
      | Some s \<Rightarrow>
          (case filter (\<lambda>r. c_id (fst r) = i) (contents_with_owner s) of
             [] \<Rightarrow> None
           | r # _ \<Rightarrow> Some (view_of r)))"

record content_update =
  cu_id :: int
  cu_title :: jsstring
  cu_description :: jsstring
  cu_category :: jsstring
  cu_imagePath :: "jsstring option"

text \<open>
  \<open>updateContent({ id, title, description, category, imagePath })\<close>. The test
  \<open>if (imagePath)\<close> holds for a non-empty string; \<open>undefined\<close>, \<open>null\<close> (\<open>None\<close>) and the
  empty string take the \<open>else\<close> branch. The strings are bound as text.
\<close>

definition truthy :: "jsstring option \<Rightarrow> bool" where
  "truthy v \<longleftrightarrow> (case v of None \<Rightarrow> False | Some x \<Rightarrow> x \<noteq> [])"

definition updateContent ::
  "content_update \<Rightarrow> store option \<Rightarrow> (sqlite_error + nat) \<times> store option" where
  "updateContent a db =
     (case db of
        None \<Rightarrow> (Inr 0, None)
      | Some s \<Rightarrow>
          (case (if truthy (cu_imagePath a)
                 then update_contents_where_id
                        (\<lambda>c. c\<lparr>c_title := to_text (cu_title a),
                               c_description := to_text (cu_description a),
                               c_category := to_text (cu_category a),
                               c_image_path := (case cu_imagePath a of
                                                  Some p \<Rightarrow> to_text p | None \<Rightarrow> [])\<rparr>)
                        (cu_id a) s
                 else update_contents_where_id
                        (\<lambda>c. c\<lparr>c_title := to_text (cu_title a),
                               c_description := to_text (cu_description a),
                               c_category := to_text (cu_category a)\<rparr>)
                        (cu_id a) s) of
             Inl e \<Rightarrow> (Inl e, Some s)
           | Inr (changes, s') \<Rightarrow> (Inr changes, Some s')))"

text \<open>
  The assignment that \<open>updateContent\<close> makes to a row: that of its first \<open>UPDATE\<close> when
  an image is given, that of its second otherwise.
\<close>

definition assign :: "content_update \<Rightarrow> content_row \<Rightarrow> content_row" where
  "assign a c =
     (if truthy (cu_imagePath a)
      then c\<lparr>c_title := to_text (cu_title a), c_description := to_text (cu_description a),
             c_category := to_text (cu_category a),
             c_image_path := (case cu_imagePath a of Some p \<Rightarrow> to_text p | None \<Rightarrow> [])\<rparr>
      else c\<lparr>c_title := to_text (cu_title a), c_description := to_text (cu_description a),
             c_category := to_text (cu_category a)\<rparr>)"

text \<open>\<open>deleteContentById(id)\<close>\<close>

definition deleteContentById :: "int \<Rightarrow> store option \<Rightarrow> nat \<times> store option" where
  "deleteContentById i db =
     (case db of
        None \<Rightarrow> (0, None)
      | Some s \<Rightarrow> (case delete_contents_where_id i s of (changes, s') \<Rightarrow> (changes, Some s')))"

subsection \<open>Likes\<close>

text \<open>\<open>getLikeCount(contentId)\<close>: \<open>SELECT COUNT(*) AS c FROM likes WHERE content_id = ?\<close>\<close>

definition getLikeCount :: "int \<Rightarrow> store option \<Rightarrow> nat" where
  "getLikeCount contentId db =
     (case db of
        None \<Rightarrow> 0
      | Some s \<Rightarrow> length (filter (\<lambda>l. l_content_id l = contentId) (likes s)))"

text \<open>\<open>hasUserLiked({ userId, contentId })\<close>\<close>

definition hasUserLiked :: "int \<Rightarrow> int \<Rightarrow> store option \<Rightarrow> bool" where
  "hasUserLiked userId contentId db =
     (case db of
        None \<Rightarrow> False
      | Some s \<Rightarrow> list_ex (\<lambda>l. l_user_id l = userId \<and> l_content_id l = contentId) (likes s))"

record like_result =
  lr_liked :: bool
  lr_count :: nat

text \<open>\<open>toggleLike({ userId, contentId })\<close>\<close>

definition toggleLike ::
  "timestamp \<Rightarrow> int \<Rightarrow> int \<Rightarrow> store option \<Rightarrow> (sqlite_error + like_result) \<times> store option" where
  "toggleLike now userId contentId db =
     (case db of
        None \<Rightarrow> (Inr \<lparr>lr_liked = False, lr_count = 0\<rparr>, None)
      | Some s \<Rightarrow>
          (let liked = hasUserLiked userId contentId db
           in if liked then
                (let s' = s\<lparr>likes := filter (\<lambda>l. \<not> (l_user_id l = userId \<and> l_content_id l = contentId))
                                       (likes s)\<rparr>
                 in (Inr \<lparr>lr_liked = \<not> liked, lr_count = getLikeCount contentId (Some s')\<rparr>,
                     Some s'))
              else
                (case insert_likes_row now userId contentId s of
                   Inl e \<Rightarrow> (Inl e, Some s)
                 | Inr s' \<Rightarrow>
                     (Inr \<lparr>lr_liked = \<not> liked, lr_count = getLikeCount contentId (Some s')\<rparr>,
                      Some s'))))"

text \<open>\<open>getUserLikedIds(userId)\<close>: a \<open>Set\<close> of content ids.\<close>

definition getUserLikedIds :: "int \<Rightarrow> store option \<Rightarrow> int set" where
  "getUserLikedIds userId db =
     (case db of
        None \<Rightarrow> {}
      | Some s \<Rightarrow> set (map l_content_id (filter (\<lambda>l. l_user_id l = userId) (likes s))))"

subsection \<open>Favorites\<close>

text \<open>\<open>isFavorite({ userId, contentId })\<close>\<close>

definition isFavorite :: "int \<Rightarrow> int \<Rightarrow> store option \<Rightarrow> bool" where
  "isFavorite userId contentId db =
     (case db of
        None \<Rightarrow> False
      | Some s \<Rightarrow>
          list_ex (\<lambda>f. f_user_id f = userId \<and> f_content_id f = contentId) (favorites s))"

text \<open>\<open>toggleFavorite({ userId, contentId })\<close>; the result is the field \<open>favorite\<close>.\<close>

definition toggleFavorite ::
  "timestamp \<Rightarrow> int \<Rightarrow> int \<Rightarrow> store option \<Rightarrow> (sqlite_error + bool) \<times> store option" where
  "toggleFavorite now userId contentId db =
     (case db of
        None \<Rightarrow> (Inr False, None)
      | Some s \<Rightarrow>
          (let fav = isFavorite userId contentId db
           in if fav then
                (Inr (\<not> fav),
                 Some (s\<lparr>favorites :=
                            filter (\<lambda>f. \<not> (f_user_id f = userId \<and> f_content_id f = contentId))
                              (favorites s)\<rparr>))
              else
                (case insert_favorites_row now userId contentId s of
                   Inl e \<Rightarrow> (Inl e, Some s)
                 | Inr s' \<Rightarrow> (Inr (\<not> fav), Some s'))))"

record favorite_view =
  fv_id :: int
  fv_title :: jsstring
  fv_description :: jsstring
  fv_category :: jsstring
  fv_imagePath :: jsstring
  fv_slug :: "jsstring option"
  fv_ownerName :: "jsstring option"
  fv_createdAt :: timestamp

text \<open>
  \<open>listFavoritesOfUser(userId)\<close>: \<open>FROM favorites f JOIN contents c ON c.id = f.content_id
  LEFT JOIN users u ON u.id = c.owner_id WHERE f.user_id = ? ORDER BY f.created_at DESC\<close>.
\<close>

definition listFavoritesOfUser :: "int \<Rightarrow> store option \<Rightarrow> favorite_view list" where
  "listFavoritesOfUser userId db =
     (case db of
        None \<Rightarrow> []
      | Some s \<Rightarrow>
          map (\<lambda>(f, c, u).
                 \<lparr>fv_id = c_id c, fv_title = c_title c, fv_description = c_description c,
                  fv_category = c_category c, fv_imagePath = c_image_path c, fv_slug = c_slug c,
                  fv_ownerName = map_option u_name u, fv_createdAt = c_created_at c\<rparr>)
            (order_by (\<lambda>a b. f_created_at (fst a) > f_created_at (fst b))
               (concat (map (\<lambda>f. map (\<lambda>(c, u). (f, c, u))
                                   (filter (\<lambda>r. c_id (fst r) = f_content_id f)
                                      (contents_with_owner s)))
                          (filter (\<lambda>f. f_user_id f = userId) (favorites s))))))"

subsection \<open>Filtering and sorting\<close>

text \<open>
  \<open>listAuthors()\<close>: \<open>SELECT id, name FROM users ORDER BY name COLLATE NOCASE\<close>.
\<close>

definition listAuthors :: "store option \<Rightarrow> (int \<times> jsstring) list" where
  "listAuthors db =
     (case db of
        None \<Rightarrow> []
      | Some s \<Rightarrow>
          map (\<lambda>u. (u_id u, u_name u))
            (order_by (\<lambda>a b. nocase_less (u_name a) (u_name b)) (users s)))"

text \<open>
  The derived table \<open>lc\<close>: \<open>SELECT content_id, COUNT(*) AS likeCount FROM likes GROUP BY
  content_id\<close>, one row for each content id that has a like.
\<close>

definition like_counts :: "store \<Rightarrow> (int \<times> nat) list" where
  "like_counts s =
     map (\<lambda>k. (k, length (filter (\<lambda>l. l_content_id l = k) (likes s))))
       (remdups (map l_content_id (likes s)))"

text \<open>
  \<open>LEFT JOIN (...) lc ON lc.content_id = c.id\<close> with \<open>COALESCE(lc.likeCount, 0)\<close>: the count
  of the group of that id, or 0 when there is no such group.
\<close>

definition coalesce_likeCount :: "store \<Rightarrow> int \<Rightarrow> nat" where
  "coalesce_likeCount s i = (case map_of (like_counts s) i of None \<Rightarrow> 0 | Some n \<Rightarrow> n)"

text \<open>
  The two \<open>ORDER BY\<close> clauses: \<open>COALESCE(lc.likeCount, 0) DESC, c.created_at DESC, c.id DESC\<close>
  and \<open>c.created_at DESC, c.id DESC\<close>.
\<close>

definition by_likes :: "content_listing \<Rightarrow> content_listing \<Rightarrow> bool" where
  "by_likes a b \<longleftrightarrow>
     v_likeCount a > v_likeCount b \<or>
     (v_likeCount a = v_likeCount b \<and>
       (v_createdAt a > v_createdAt b \<or>
        (v_createdAt a = v_createdAt b \<and> v_id a > v_id b)))"

definition by_newest :: "content_listing \<Rightarrow> content_listing \<Rightarrow> bool" where
  "by_newest a b \<longleftrightarrow>
     v_createdAt a > v_createdAt b \<or> (v_createdAt a = v_createdAt b \<and> v_id a > v_id b)"

record list_filter =
  lf_category :: "jsstring option"
  lf_ownerId :: "int option"
  lf_sort :: jsstring

text \<open>
  \<open>listContentsFiltered({ category = null, ownerId = null, sort = 'newest' })\<close>. The tests
  \<open>if (category)\<close> and \<open>if (ownerId)\<close> fail for \<open>null\<close>, for the empty string and for the
  number 0: then that condition is not added to the \<open>WHERE\<close> clause.
\<close>

definition listContentsFiltered :: "list_filter \<Rightarrow> store option \<Rightarrow> content_listing list" where
  "listContentsFiltered a db =
     (case db of
        None \<Rightarrow> []
      | Some s \<Rightarrow>
          (let category_ok = (\<lambda>c. if truthy (lf_category a)
                                   then Some (c_category c) = map_option to_text (lf_category a)
                                   else True);
               owner_ok = (\<lambda>c. case lf_ownerId a of
                                  None \<Rightarrow> True
                                | Some ownerId \<Rightarrow> if ownerId \<noteq> 0 then c_owner_id c = ownerId else True);
               orderBy = (if lf_sort a = js ''likes'' then by_likes else by_newest)
           in order_by orderBy
                (map (\<lambda>r. listing_of r (coalesce_likeCount s (c_id (fst r))))
                   (filter (\<lambda>r. category_ok (fst r) \<and> owner_ok (fst r))
                      (contents_with_owner s)))))"

section \<open>The constraints of the schema\<close>

text \<open>
  What the primary keys, the unique indexes, the foreign keys and the \<open>AUTOINCREMENT\<close>
  counters of \<open>migrate\<close> guarantee of every state of the database.
\<close>

definition primary_keys :: "store \<Rightarrow> bool" where
  "primary_keys s \<longleftrightarrow>
     distinct (map u_id (users s)) \<and>
     distinct (map c_id (contents s)) \<and>
     distinct (map (\<lambda>l. (l_user_id l, l_content_id l)) (likes s)) \<and>
     distinct (map (\<lambda>f. (f_user_id f, f_content_id f)) (favorites s))"

definition foreign_keys :: "store \<Rightarrow> bool" where
  "foreign_keys s \<longleftrightarrow>
     (\<forall>c\<in>set (contents s). c_owner_id c \<in> set (map u_id (users s))) \<and>
     (\<forall>l\<in>set (likes s). l_user_id l \<in> set (map u_id (users s)) \<and>
                          l_content_id l \<in> set (map c_id (contents s))) \<and>
     (\<forall>f\<in>set (favorites s). f_user_id f \<in> set (map u_id (users s)) \<and>
                              f_content_id f \<in> set (map c_id (contents s)))"

definition unique_emails :: "store \<Rightarrow> bool" where
  "unique_emails s \<longleftrightarrow>
     distinct (map nocase_key (concat (map (\<lambda>u. case u_email u of None \<Rightarrow> [] | Some e \<Rightarrow> [e])
                                         (users s))))"

definition unique_slugs :: "store \<Rightarrow> bool" where
  "unique_slugs s \<longleftrightarrow>
     distinct (concat (map (\<lambda>c. case c_slug c of None \<Rightarrow> [] | Some x \<Rightarrow> [x]) (contents s)))"

text \<open>All of them together, and the database right after \<open>migrate\<close> has built a new file.\<close>

definition schema_ok :: "store \<Rightarrow> bool" where
  "schema_ok s \<longleftrightarrow> primary_keys s \<and> foreign_keys s \<and> unique_emails s \<and> unique_slugs s"

definition empty_store :: store where
  "empty_store =
     \<lparr>users = [], contents = [], likes = [], favorites = [], users_seq = 0, contents_seq = 0\<rparr>"

section \<open>A small database\<close>

text \<open>
  The three users of \<open>seedDemoOnce\<close> (Max, Erika, Sam; Erika has registered an email), and
  the states after Erika posts "Die Zeitmaschine!", after Sam posts "Die Zeitmaschine?", and
  after Max likes the second post.
\<close>

definition demo_erika :: user_row where
  "demo_erika =
     \<lparr>u_id = 2, u_name = js ''Erika'', u_role = js ''user'', u_created_at = 1000,
      u_email = Some (js ''erika@example.org''), u_password_hash = Some (js ''$2b$11$abc'')\<rparr>"

definition demo_users :: "user_row list" where
  "demo_users =
     [\<lparr>u_id = 1, u_name = js ''Max'', u_role = js ''admin'', u_created_at = 1000,
        u_email = None, u_password_hash = None\<rparr>,
      demo_erika,
      \<lparr>u_id = 3, u_name = js ''Sam'', u_role = js ''editor'', u_created_at = 1000,
        u_email = None, u_password_hash = None\<rparr>]"

definition demo_store :: store where
  "demo_store =
     \<lparr>users = demo_users, contents = [], likes = [], favorites = [],
      users_seq = 3, contents_seq = 0\<rparr>"

definition demo_post_1 :: content_row where
  "demo_post_1 =
     \<lparr>c_id = 1, c_title = js ''Die Zeitmaschine!'', c_description = js ''H. G. Wells'',
      c_category = js ''sifi'', c_image_path = js ''/uploads/1.png'', c_owner_id = 2,
      c_created_at = 2000, c_slug = Some (js ''die-zeitmaschine'')\<rparr>"

definition demo_post_2 :: content_row where
  "demo_post_2 =
     \<lparr>c_id = 2, c_title = js ''Die Zeitmaschine?'', c_description = js ''Remake'',
      c_category = js ''krimi'', c_image_path = js ''/uploads/2.png'', c_owner_id = 3,
      c_created_at = 3000, c_slug = Some (js ''die-zeitmaschine-2'')\<rparr>"

definition demo_store_1 :: store where
  "demo_store_1 = demo_store\<lparr>contents := [demo_post_1], contents_seq := 1\<rparr>"

definition demo_store_2 :: store where
  "demo_store_2 = demo_store\<lparr>contents := [demo_post_1, demo_post_2], contents_seq := 2\<rparr>"

definition demo_store_3 :: store where
  "demo_store_3 =
     demo_store_2\<lparr>likes := [\<lparr>l_user_id = 1, l_content_id = 2, l_created_at = 4000\<rparr>]\<rparr>"

definition demo_store_4 :: store where
  "demo_store_4 =
     demo_store_3\<lparr>favorites := [\<lparr>f_user_id = 2, f_content_id = 2, f_created_at = 4500\<rparr>]\<rparr>"



text \<open>An edit of the second post without a new image, and the state after it.\<close>

definition demo_update :: content_update where
  "demo_update =
     \<lparr>cu_id = 2, cu_title = js ''Zeitmaschine II'', cu_description = js ''Remake, 2002'',
      cu_category = js ''horror'', cu_imagePath = None\<rparr>"

definition demo_store_5 :: store where
  "demo_store_5 =
     demo_store_3\<lparr>contents :=
       [demo_post_1,
        demo_post_2\<lparr>c_title := js ''Zeitmaschine II'', c_description := js ''Remake, 2002'',
          c_category := js ''horror''\<rparr>]\<rparr>"

definition demo_view_2 :: content_view where
  "demo_view_2 =
     \<lparr>v_id = 2, v_title = js ''Die Zeitmaschine?'', v_description = js ''Remake'',
      v_category = js ''krimi'', v_imagePath = js ''/uploads/2.png'',
      v_slug = Some (js ''die-zeitmaschine-2''), v_ownerId = 3, v_ownerName = Some (js ''Sam''),
      v_createdAt = 3000\<rparr>"

section \<open>Text: what binding does to a string\<close>

lemma to_text_Cons_plain:
  "\<not> is_high c \<Longrightarrow> \<not> is_low c \<Longrightarrow> to_text (c # cs) = c # to_text cs"
  by (cases cs) simp_all

lemma to_text_plain: "\<forall>c\<in>set s. \<not> is_high c \<and> \<not> is_low c \<Longrightarrow> to_text s = s"
  by (induction s) (simp_all add: to_text_Cons_plain)

lemma to_text_append_plain:
  "ys = [] \<or> \<not> is_low (hd ys) \<Longrightarrow> to_text (xs @ ys) = to_text xs @ to_text ys"
proof (induction xs rule: to_text.induct)
  case 1
  then show ?case by simp
next
  case (2 c)
  then show ?case by (cases ys) auto
next
  case (3 c d cs)
  then show ?case by simp
qed

lemma to_text_Nil_iff: "to_text s = [] \<longleftrightarrow> s = []"
  by (induction s rule: to_text.induct) auto

lemma replacement_plain: "\<not> is_high 0xFFFD" "\<not> is_low 0xFFFD"
  by (simp_all add: is_high_def is_low_def)

lemma to_text_idem: "to_text (to_text s) = to_text s"
proof (induction s rule: to_text.induct)
  case 1
  then show ?case by simp
next
  case (2 c)
  then show ?case by (simp add: replacement_plain)
next
  case (3 c d cs)
  then show ?case by (simp add: to_text_Cons_plain replacement_plain)
qed





lemma az09_plain: "is_az09 c \<or> c = dash \<Longrightarrow> \<not> is_high c \<and> \<not> is_low c"
  by (auto simp: is_az09_def dash_def is_high_def is_low_def)

lemma to_text_slug_text:
  assumes "slug_text s"
  shows "to_text s = s"
proof (rule to_text_plain)
  show "\<forall>c\<in>set s. \<not> is_high c \<and> \<not> is_low c"
    using assms az09_plain unfolding slug_text_def by blast
qed

section \<open>The slug helper: shape of the result and idempotence\<close>

lemma dash_not_az09: "\<not> is_az09 dash"
  by (simp add: is_az09_def dash_def)

lemma squeeze_dashes_id: "\<not> sublist [dash, dash] s \<Longrightarrow> squeeze_dashes s = s"
proof (induction s rule: squeeze_dashes.induct)
  case (1 a b cs)
  have nd: "\<not> (a = dash \<and> b = dash)"
  proof
    assume "a = dash \<and> b = dash"
    then have "prefix [dash, dash] (a # b # cs)" by simp
    then show False using "1.prems" by (meson prefix_imp_sublist)
  qed
  have "\<not> sublist [dash, dash] (b # cs)"
    using "1.prems" by (meson sublist_Cons_right)
  with 1 nd show ?case by auto
qed simp_all

lemma hyphenate_runs_text: "slug_text (hyphenate_runs s)"
  unfolding slug_text_def
  by (induction s rule: hyphenate_runs.induct) auto

lemma hyphenate_runs_hd:
  "s = [] \<or> is_az09 (hd s) \<Longrightarrow> hyphenate_runs s = [] \<or> is_az09 (hd (hyphenate_runs s))"
  by (cases s) auto

lemma dropWhile_hd: "dropWhile P s = [] \<or> \<not> P (hd (dropWhile P s))"
  by (metis hd_dropWhile)

lemma hyphenate_runs_no_double: "\<not> sublist [dash, dash] (hyphenate_runs s)"
proof (induction s rule: hyphenate_runs.induct)
  case 1
  then show ?case by simp
next
  case (2 c cs)
  show ?case
  proof (cases "is_az09 c")
    case True
    with 2 dash_not_az09 show ?thesis
      by (auto simp: sublist_Cons_right)
  next
    case False
    let ?r = "dropWhile (\<lambda>d. \<not> is_az09 d) cs"
    have "?r = [] \<or> is_az09 (hd ?r)" using dropWhile_hd[of "\<lambda>d. \<not> is_az09 d" cs] by simp
    then have "hyphenate_runs ?r = [] \<or> is_az09 (hd (hyphenate_runs ?r))"
      by (rule hyphenate_runs_hd)
    then have "\<not> prefix [dash] (hyphenate_runs ?r)"
      using dash_not_az09 by (cases "hyphenate_runs ?r") auto
    with 2 False show ?thesis
      by (auto simp: sublist_Cons_right)
  qed
qed

lemma trim_dashes_sublist: "sublist (trim_dashes s) s"
proof -
  have "suffix (dropWhile (\<lambda>c. c = dash) s) s" by (rule suffix_dropWhile)
  moreover have "prefix (trim_dashes s) (dropWhile (\<lambda>c. c = dash) s)"
    unfolding trim_dashes_def
    by (metis suffix_dropWhile suffix_to_prefix rev_rev_ident)
  ultimately show ?thesis
    by (meson prefix_imp_sublist suffix_imp_sublist sublist_order.order_trans)
qed

lemma trim_dashes_ends:
  "trim_dashes s = [] \<or> (hd (trim_dashes s) \<noteq> dash \<and> last (trim_dashes s) \<noteq> dash)"
proof (cases "trim_dashes s = []")
  case True then show ?thesis by simp
next
  case False
  let ?t = "dropWhile (\<lambda>c. c = dash) s"
  let ?u = "dropWhile (\<lambda>c. c = dash) (rev ?t)"
  have u: "?u \<noteq> []" using False by (simp add: trim_dashes_def)
  then have "hd ?u \<noteq> dash" using dropWhile_hd[of "\<lambda>c. c = dash" "rev ?t"] by auto
  then have l: "last (trim_dashes s) \<noteq> dash"
    using u by (simp add: trim_dashes_def last_rev)
  have "prefix (trim_dashes s) ?t"
    unfolding trim_dashes_def
    by (metis suffix_dropWhile suffix_to_prefix rev_rev_ident)
  then have "hd (trim_dashes s) = hd ?t" using False
    by (metis hd_append2 prefix_def)
  moreover have "?t \<noteq> []"
  proof
    assume "?t = []"
    then have "trim_dashes s = []"
      unfolding trim_dashes_def by (simp only: rev.simps dropWhile.simps)
    with False show False by simp
  qed
  then have "hd ?t \<noteq> dash" using dropWhile_hd[of "\<lambda>c. c = dash" s] by auto
  ultimately show ?thesis using l by simp
qed

lemma slug_text_sublist: "slug_text s \<Longrightarrow> sublist t s \<Longrightarrow> slug_text t"
  unfolding slug_text_def by (meson set_mono_sublist subsetD)

lemma strip_combining_id: "slug_text s \<Longrightarrow> strip_combining s = s"
  unfolding slug_text_def strip_combining_def
  by (rule filter_True) (auto simp: is_combining_def is_az09_def dash_def)

lemma replace_ampersand_id: "slug_text s \<Longrightarrow> replace_ampersand s = s"
  unfolding slug_text_def replace_ampersand_def
  by (induction s) (auto simp: ampersand_def is_az09_def dash_def)

lemma hyphenate_runs_id:
  "slug_text s \<Longrightarrow> \<not> sublist [dash, dash] s \<Longrightarrow> hyphenate_runs s = s"
proof (induction s rule: hyphenate_runs.induct)
  case 1
  then show ?case by simp
next
  case (2 c cs)
  have st: "slug_text cs" using "2.prems"(1) by (simp add: slug_text_def)
  have nd: "\<not> sublist [dash, dash] cs" using "2.prems"(2) by (meson sublist_Cons_right)
  show ?case
  proof (cases "is_az09 c")
    case True
    with 2 st nd show ?thesis by simp
  next
    case False
    then have c: "c = dash" using "2.prems"(1) by (simp add: slug_text_def)
    have "cs = [] \<or> hd cs \<noteq> dash"
    proof (cases cs)
      case Nil then show ?thesis by simp
    next
      case (Cons d ds)
      have "d \<noteq> dash"
      proof
        assume "d = dash"
        then have "prefix [dash, dash] (c # cs)" using c Cons by simp
        then show False using "2.prems"(2) by (meson prefix_imp_sublist)
      qed
      then show ?thesis using Cons by simp
    qed
    then have "cs = [] \<or> is_az09 (hd cs)" using st by (cases cs) (auto simp: slug_text_def)
    then have "dropWhile (\<lambda>d. \<not> is_az09 d) cs = cs" by (cases cs) auto
    with 2 False st nd c show ?thesis by simp
  qed
qed

lemma trim_dashes_id: "s = [] \<or> (hd s \<noteq> dash \<and> last s \<noteq> dash) \<Longrightarrow> trim_dashes s = s"
proof (cases s)
  case Nil then show ?thesis by (simp add: trim_dashes_def)
next
  case (Cons a as)
  assume "s = [] \<or> (hd s \<noteq> dash \<and> last s \<noteq> dash)"
  then have h: "hd s \<noteq> dash" and l: "last s \<noteq> dash" using Cons by auto
  have 1: "dropWhile (\<lambda>c. c = dash) s = s" using h Cons by simp
  have ne: "s \<noteq> []" using Cons by simp
  then have "hd (rev s) = last s" by (simp add: hd_rev)
  with ne l have "rev s \<noteq> []" "hd (rev s) \<noteq> dash" by simp_all
  then have "dropWhile (\<lambda>c. c = dash) (rev s) = rev s" by (cases "rev s") auto
  with 1 show ?thesis by (simp add: trim_dashes_def)
qed

lemma slugify_is_slug: "is_slug (slugify rt s)"
proof (cases "s = []")
  case True
  then show ?thesis by (simp add: slugify_def is_slug_def slug_text_def)
next
  case False
  define h where "h = hyphenate_runs (replace_ampersand
             (toLowerCase rt (strip_combining (normalize_NFKD rt s))))"
  have 1: "slug_text (trim_dashes h)"
    using hyphenate_runs_text trim_dashes_sublist slug_text_sublist h_def by blast
  have 2: "\<not> sublist [dash, dash] (trim_dashes h)"
    using hyphenate_runs_no_double[of "replace_ampersand
             (toLowerCase rt (strip_combining (normalize_NFKD rt s)))"] trim_dashes_sublist[of h]
    unfolding h_def by (meson sublist_order.order_trans)
  have "slugify rt s = trim_dashes h"
    using False 2 by (simp add: slugify_def h_def squeeze_dashes_id)
  with 1 2 trim_dashes_ends[of h] show ?thesis by (simp add: is_slug_def)
qed

lemma slugify_fixes_slug:
  assumes "is_slug s" and "normalize_NFKD rt s = s" and "toLowerCase rt s = s"
  shows "slugify rt s = s"
proof -
  from assms(1) have t: "slug_text s" and d: "\<not> sublist [dash, dash] s"
    and e: "s = [] \<or> (hd s \<noteq> dash \<and> last s \<noteq> dash)"
    by (simp_all add: is_slug_def)
  have "squeeze_dashes (trim_dashes (hyphenate_runs (replace_ampersand
          (toLowerCase rt (strip_combining (normalize_NFKD rt s)))))) = s"
    by (simp add: assms(2,3) strip_combining_id [OF t] replace_ampersand_id [OF t]
        hyphenate_runs_id [OF t d] trim_dashes_id [OF e] squeeze_dashes_id [OF d])
  then show ?thesis by (simp add: slugify_def)
qed

text \<open>
  Claim C8. \<open>slugify\<close> is idempotent: \<open>slugify (slugify s) = slugify s\<close> for every string
  \<open>s\<close>. The two functions of the JavaScript engine are only asked to leave a text of
  \<open>[a-z0-9]\<close> and dashes as it is, which NFKD normalisation and lower-casing do.
\<close>

theorem slugify_idempotent:
  assumes "\<And>t. \<forall>c\<in>set t. is_az09 c \<or> c = dash \<Longrightarrow> normalize_NFKD rt t = t"
    and "\<And>t. \<forall>c\<in>set t. is_az09 c \<or> c = dash \<Longrightarrow> toLowerCase rt t = t"
  shows "slugify rt (slugify rt s) = slugify rt s"
proof -
  have "is_slug (slugify rt s)" by (rule slugify_is_slug)
  moreover from this have "\<forall>c\<in>set (slugify rt s). is_az09 c \<or> c = dash"
    by (simp add: is_slug_def slug_text_def)
  ultimately show ?thesis
    using assms by (intro slugify_fixes_slug) auto
qed

lemma ascii_lower_slug_text: "\<forall>c\<in>set t. is_az09 c \<or> c = dash \<Longrightarrow> map ascii_lower t = t"
  by (rule map_idI) (auto simp: ascii_lower_def is_az09_def dash_def)

lemma slugify_zeitmaschine: "slugify ascii_rt (js ''Die Zeitmaschine!'') = js ''die-zeitmaschine''"
  by code_simp

theorem slugify_idempotent_witness:
  "slugify ascii_rt (js ''Die Zeitmaschine!'') = js ''die-zeitmaschine'' \<and>
   slugify ascii_rt (slugify ascii_rt (js ''Die Zeitmaschine!'')) =
     slugify ascii_rt (js ''Die Zeitmaschine!'')"
proof -
  have n: "\<And>t. \<forall>c\<in>set t. is_az09 c \<or> c = dash \<Longrightarrow> normalize_NFKD ascii_rt t = t"
    by (simp add: ascii_rt_def)
  have l: "\<And>t. \<forall>c\<in>set t. is_az09 c \<or> c = dash \<Longrightarrow> toLowerCase ascii_rt t = t"
    by (simp add: ascii_rt_def ascii_lower_slug_text)
  show ?thesis
    using slugify_zeitmaschine slugify_idempotent [of ascii_rt "js ''Die Zeitmaschine!''", OF n l]
    by simp
qed

section \<open>Unique slugs: termination of the search, and two posts of one title\<close>

declare decimal.simps [simp del]

lemma decimal_nonempty: "decimal n \<noteq> []"
  by (subst decimal.simps) simp

lemma decimal_inj: "decimal m = decimal n \<Longrightarrow> m = n"
proof (induction m arbitrary: n rule: decimal.induct)
  case (1 m)
  show ?case
  proof (cases "m < 10")
    case m: True
    show ?thesis
    proof (cases "n < 10")
      case True
      with m "1.prems" show ?thesis
        by (simp add: decimal.simps [of m] decimal.simps [of n])
    next
      case False
      with m "1.prems" decimal_nonempty [of "n div 10"] show ?thesis
        by (simp add: decimal.simps [of m] decimal.simps [of n])
    qed
  next
    case m: False
    show ?thesis
    proof (cases "n < 10")
      case True
      with m "1.prems" decimal_nonempty [of "m div 10"] show ?thesis
        by (simp add: decimal.simps [of m] decimal.simps [of n])
    next
      case False
      with m "1.prems" have "decimal (m div 10) = decimal (n div 10)" and "m mod 10 = n mod 10"
        by (simp_all add: decimal.simps [of m] decimal.simps [of n])
      with m "1.IH" have "m div 10 = n div 10" by simp
      with \<open>m mod 10 = n mod 10\<close> show ?thesis
        by (metis div_mult_mod_eq)
    qed
  qed
qed

lemma digit_plain:
  "d < 10 \<Longrightarrow> \<not> is_high (of_char CHR ''0'' + d) \<and> \<not> is_low (of_char CHR ''0'' + d)"
  by (simp add: is_high_def is_low_def)

lemma decimal_plain: "\<forall>c\<in>set (decimal n). \<not> is_high c \<and> \<not> is_low c"
proof (induction n rule: decimal.induct)
  case (1 n)
  show ?case
  proof (cases "n < 10")
    case True
    with digit_plain [of n] show ?thesis
      by (subst decimal.simps) simp
  next
    case False
    have "n mod 10 < 10" by simp
    then have "\<not> is_high (of_char CHR ''0'' + n mod 10) \<and> \<not> is_low (of_char CHR ''0'' + n mod 10)"
      by (rule digit_plain)
    with False "1.IH" show ?thesis
      by (subst decimal.simps) simp
  qed
qed

lemma to_text_suffixed:
  "to_text (slug @ js ''-'' @ decimal j) = to_text slug @ js ''-'' @ decimal j"
proof -
  have plain: "\<forall>c\<in>set (js ''-'' @ decimal j). \<not> is_high c \<and> \<not> is_low c"
    using decimal_plain [of j] by (simp add: js_def is_high_def is_low_def)
  have "\<not> is_low (hd (js ''-'' @ decimal j))"
    by (simp add: js_def is_low_def)
  then have "to_text (slug @ js ''-'' @ decimal j) = to_text slug @ to_text (js ''-'' @ decimal j)"
    by (intro to_text_append_plain) simp
  with to_text_plain [OF plain] show ?thesis by simp
qed

lemma slug_exists_iff: "slug_exists s x \<longleftrightarrow> Some (to_text x) \<in> c_slug ` set (contents s)"
  by (force simp: slug_exists_def list_ex_iff)

lemma finite_taken_suffixes: "finite {j. slug_exists s (slug @ js ''-'' @ decimal j)}"
proof -
  have "inj (\<lambda>j. Some (to_text (slug @ js ''-'' @ decimal j)))"
    by (rule injI) (simp add: to_text_suffixed decimal_inj)
  then have "finite ((\<lambda>j. Some (to_text (slug @ js ''-'' @ decimal j))) -`
                      (c_slug ` set (contents s)))"
    by (intro finite_vimageI) simp_all
  then show ?thesis
    by (simp add: slug_exists_iff vimage_def)
qed

termination makeUniqueContentSlug_loop
proof (relation "measure (\<lambda>(s, slug, i). card {j. i \<le> j \<and> slug_exists s (slug @ js ''-'' @ decimal j)})")
  show "wf (measure (\<lambda>(s, slug, i). card {j. i \<le> j \<and> slug_exists s (slug @ js ''-'' @ decimal j)}))"
    by simp
next
  fix s :: store and slug :: jsstring and i :: nat
  assume taken: "slug_exists s (slug @ js ''-'' @ decimal i)"
  let ?A = "\<lambda>k. {j. k \<le> j \<and> slug_exists s (slug @ js ''-'' @ decimal j)}"
  have fin: "finite (?A i)"
    using finite_taken_suffixes [of s slug] by simp
  have "i \<in> ?A i" "i \<notin> ?A (i + 1)" "?A (i + 1) \<subseteq> ?A i"
    using taken by auto
  then have "?A (i + 1) \<subset> ?A i" by blast
  with fin have "card (?A (i + 1)) < card (?A i)"
    by (rule psubset_card_mono)
  then show "((s, slug, i + 1), (s, slug, i)) \<in>
      measure (\<lambda>(s, slug, i). card {j. i \<le> j \<and> slug_exists s (slug @ js ''-'' @ decimal j)})"
    by simp
qed

declare makeUniqueContentSlug_loop.simps [simp del]

lemma makeUniqueContentSlug_loop_fresh:
  "\<not> slug_exists s (makeUniqueContentSlug_loop s slug i)"
  by (induction s slug i rule: makeUniqueContentSlug_loop.induct)
     (simp add: makeUniqueContentSlug_loop.simps)

lemma makeUniqueContentSlug_fresh: "\<not> slug_exists s (makeUniqueContentSlug s baseSlug)"
  by (simp add: makeUniqueContentSlug_def Let_def makeUniqueContentSlug_loop_fresh)

lemma decimal_2: "decimal 2 = js ''2''"
  by (simp add: decimal.simps js_def)

lemma js_append: "js (a @ b) = js a @ js b"
  by (simp add: js_def)

lemma insertContent_Some:
  assumes "insertContent rt now a (Some s) = (Inr (Some i), Some s')"
  shows "contents s' = contents s @
           [\<lparr>c_id = i, c_title = to_text (nc_title a),
             c_description = to_text (nc_description a),
             c_category = to_text (nc_category a), c_image_path = to_text (nc_imagePath a),
             c_owner_id = nc_ownerId a, c_created_at = now,
             c_slug = Some (to_text (makeUniqueContentSlug s (slugify rt (nc_title a))))\<rparr>]"
  using assms
  by (auto simp: insertContent_def insert_contents_row_def Let_def split: if_splits)

lemma slug_exists_append:
  "contents s' = contents s @ [r] \<Longrightarrow>
   slug_exists s' x \<longleftrightarrow> slug_exists s x \<or> c_slug r = Some (to_text x)"
  by (auto simp: slug_exists_def)

lemma to_text_base:
  assumes "base = (if slugify rt t = [] then js ''eintrag'' else slugify rt t)"
  shows "to_text base = base" and "to_text (base @ js ''-2'') = base @ js ''-2''"
proof -
  have "slug_text (js ''eintrag'')"
    by (simp add: slug_text_def js_def is_az09_def)
  moreover have "slug_text (slugify rt t)"
    using slugify_is_slug [of rt t] by (simp add: is_slug_def)
  ultimately have b: "slug_text base"
    using assms by simp
  then show "to_text base = base"
    by (rule to_text_slug_text)
  have "slug_text (base @ js ''-2'')"
    using b by (auto simp: slug_text_def js_def is_az09_def dash_def)
  then show "to_text (base @ js ''-2'') = base @ js ''-2''"
    by (rule to_text_slug_text)
qed

text \<open>
  Claim C1. Two contents whose titles have the same slugified form are created one after
  the other by \<open>insertContent\<close>, from a state where neither the base slug (the slugified
  title, or \<open>eintrag\<close> when that is empty: the slug the search starts from) nor the base slug
  followed by \<open>-2\<close> is in use. Then the first row is stored with the base slug, the second
  with the base slug followed by \<open>-2\<close>; the two slugs differ, and each was absent from the
  table before its own insert.
\<close>

theorem insertContent_same_slug_twice:
  assumes same: "slugify rt (nc_title a1) = slugify rt (nc_title a2)"
    and base: "base = (if slugify rt (nc_title a1) = [] then js ''eintrag''
                       else slugify rt (nc_title a1))"
    and free: "\<not> slug_exists s0 base" "\<not> slug_exists s0 (base @ js ''-2'')"
    and first: "insertContent rt now1 a1 (Some s0) = (Inr (Some id1), Some s1)"
    and second: "insertContent rt now2 a2 (Some s1) = (Inr (Some id2), Some s2)"
  shows "\<exists>r1 r2. contents s1 = contents s0 @ [r1] \<and> contents s2 = contents s1 @ [r2] \<and>
           c_id r1 = id1 \<and> c_id r2 = id2 \<and>
           c_slug r1 = Some base \<and> c_slug r2 = Some (base @ js ''-2'') \<and>
           c_slug r1 \<noteq> c_slug r2 \<and>
           \<not> slug_exists s0 base \<and> \<not> slug_exists s1 (base @ js ''-2'')"
proof -
  define r1 where "r1 = \<lparr>c_id = id1, c_title = to_text (nc_title a1),
             c_description = to_text (nc_description a1),
             c_category = to_text (nc_category a1), c_image_path = to_text (nc_imagePath a1),
             c_owner_id = nc_ownerId a1, c_created_at = now1,
             c_slug = Some (to_text (makeUniqueContentSlug s0 (slugify rt (nc_title a1))))\<rparr>"
  define r2 where "r2 = \<lparr>c_id = id2, c_title = to_text (nc_title a2),
             c_description = to_text (nc_description a2),
             c_category = to_text (nc_category a2), c_image_path = to_text (nc_imagePath a2),
             c_owner_id = nc_ownerId a2, c_created_at = now2,
             c_slug = Some (to_text (makeUniqueContentSlug s1 (slugify rt (nc_title a2))))\<rparr>"
  note tb = to_text_base [OF base]
  have c1: "contents s1 = contents s0 @ [r1]"
    using insertContent_Some [OF first] by (simp add: r1_def)
  have c2: "contents s2 = contents s1 @ [r2]"
    using insertContent_Some [OF second] by (simp add: r2_def)
  have m1: "makeUniqueContentSlug s0 (slugify rt (nc_title a1)) = base"
    using free(1) by (simp add: makeUniqueContentSlug_def Let_def base [symmetric])
  then have slug1: "c_slug r1 = Some base" by (simp add: r1_def tb(1))
  have taken: "slug_exists s1 base"
    using c1 slug1 by (simp add: slug_exists_append tb(1))
  have longer: "base \<noteq> base @ js ''-2''"
    by (simp add: js_def)
  have free2: "\<not> slug_exists s1 (base @ js ''-2'')"
    using c1 slug1 free(2) longer by (simp add: slug_exists_append tb(2))
  have base2: "base = (if slugify rt (nc_title a2) = [] then js ''eintrag''
                       else slugify rt (nc_title a2))"
    using base same by simp
  have "makeUniqueContentSlug s1 (slugify rt (nc_title a2)) = makeUniqueContentSlug_loop s1 base 2"
    using taken by (simp add: makeUniqueContentSlug_def Let_def base2 [symmetric])
  also have "\<dots> = base @ js ''-2''"
    using free2 by (simp add: makeUniqueContentSlug_loop.simps decimal_2 js_append [symmetric])
  finally have slug2: "c_slug r2 = Some (base @ js ''-2'')" by (simp add: r2_def tb(2))
  have "c_slug r1 \<noteq> c_slug r2"
    using slug1 slug2 by (simp add: js_def)
  with c1 c2 slug1 slug2 free(1) free2 show ?thesis
    by (intro exI [of _ r1] exI [of _ r2]) (simp add: r1_def r2_def)
qed

lemma demo_insert_1:
  "insertContent ascii_rt 2000
     \<lparr>nc_title = js ''Die Zeitmaschine!'', nc_description = js ''H. G. Wells'',
      nc_category = js ''sifi'', nc_imagePath = js ''/uploads/1.png'', nc_ownerId = 2\<rparr>
     (Some demo_store) = (Inr (Some 1), Some demo_store_1)"
  by code_simp

lemma demo_insert_2:
  "insertContent ascii_rt 3000
     \<lparr>nc_title = js ''Die Zeitmaschine?'', nc_description = js ''Remake'',
      nc_category = js ''krimi'', nc_imagePath = js ''/uploads/2.png'', nc_ownerId = 3\<rparr>
     (Some demo_store_1) = (Inr (Some 2), Some demo_store_2)"
  by code_simp

lemma demo_slugify_2: "slugify ascii_rt (js ''Die Zeitmaschine?'') = js ''die-zeitmaschine''"
  by code_simp

lemma demo_slug_free:
  "\<not> slug_exists demo_store (js ''die-zeitmaschine'')"
  "\<not> slug_exists demo_store (js ''die-zeitmaschine'' @ js ''-2'')"
  by code_simp+

theorem insertContent_same_slug_twice_witness:
  "slugify ascii_rt (js ''Die Zeitmaschine!'') = slugify ascii_rt (js ''Die Zeitmaschine?'') \<and>
   \<not> slug_exists demo_store (js ''die-zeitmaschine'') \<and>
   \<not> slug_exists demo_store (js ''die-zeitmaschine'' @ js ''-2'') \<and>
   insertContent ascii_rt 2000
     \<lparr>nc_title = js ''Die Zeitmaschine!'', nc_description = js ''H. G. Wells'',
      nc_category = js ''sifi'', nc_imagePath = js ''/uploads/1.png'', nc_ownerId = 2\<rparr>
     (Some demo_store) = (Inr (Some 1), Some demo_store_1) \<and>
   insertContent ascii_rt 3000
     \<lparr>nc_title = js ''Die Zeitmaschine?'', nc_description = js ''Remake'',
      nc_category = js ''krimi'', nc_imagePath = js ''/uploads/2.png'', nc_ownerId = 3\<rparr>
     (Some demo_store_1) = (Inr (Some 2), Some demo_store_2) \<and>
   map c_slug (contents demo_store_2) =
     [Some (js ''die-zeitmaschine''), Some (js ''die-zeitmaschine'' @ js ''-2'')] \<and>
   \<not> slug_exists demo_store_1 (js ''die-zeitmaschine'' @ js ''-2'')"
proof -
  have same: "slugify ascii_rt
        (nc_title \<lparr>nc_title = js ''Die Zeitmaschine!'', nc_description = js ''H. G. Wells'',
           nc_category = js ''sifi'', nc_imagePath = js ''/uploads/1.png'', nc_ownerId = 2\<rparr>) =
      slugify ascii_rt
        (nc_title \<lparr>nc_title = js ''Die Zeitmaschine?'', nc_description = js ''Remake'',
           nc_category = js ''krimi'', nc_imagePath = js ''/uploads/2.png'', nc_ownerId = 3\<rparr>)"
    by (simp add: slugify_zeitmaschine demo_slugify_2)
  have base: "js ''die-zeitmaschine'' =
      (if slugify ascii_rt
            (nc_title \<lparr>nc_title = js ''Die Zeitmaschine!'', nc_description = js ''H. G. Wells'',
               nc_category = js ''sifi'', nc_imagePath = js ''/uploads/1.png'', nc_ownerId = 2\<rparr>) = []
       then js ''eintrag''
       else slugify ascii_rt
            (nc_title \<lparr>nc_title = js ''Die Zeitmaschine!'', nc_description = js ''H. G. Wells'',
               nc_category = js ''sifi'', nc_imagePath = js ''/uploads/1.png'', nc_ownerId = 2\<rparr>))"
    by (simp only: new_content.select_convs slugify_zeitmaschine) (simp add: js_def)
  from insertContent_same_slug_twice
         [OF same base demo_slug_free(1) demo_slug_free(2) demo_insert_1 demo_insert_2]
  obtain r1 r2 where
    r: "contents demo_store_1 = contents demo_store @ [r1]"
       "contents demo_store_2 = contents demo_store_1 @ [r2]"
       "c_slug r1 = Some (js ''die-zeitmaschine'')"
       "c_slug r2 = Some (js ''die-zeitmaschine'' @ js ''-2'')"
       "\<not> slug_exists demo_store_1 (js ''die-zeitmaschine'' @ js ''-2'')"
    by blast
  have "contents demo_store = []"
    by (simp add: demo_store_def)
  with r have "map c_slug (contents demo_store_2) =
      [Some (js ''die-zeitmaschine''), Some (js ''die-zeitmaschine'' @ js ''-2'')]"
    by simp
  with r(5) same demo_slug_free demo_insert_1 demo_insert_2 show ?thesis
    by simp
qed

section \<open>Likes: toggling twice\<close>

lemma count_after_unlike:
  "distinct (map (\<lambda>l. (l_user_id l, l_content_id l)) ls) \<Longrightarrow>
   list_ex (\<lambda>l. l_user_id l = u \<and> l_content_id l = c) ls \<Longrightarrow>
   length (filter (\<lambda>l. l_content_id l = c) ls) =
     Suc (length (filter (\<lambda>l. l_content_id l = c)
            (filter (\<lambda>l. \<not> (l_user_id l = u \<and> l_content_id l = c)) ls)))"
proof (induction ls)
  case Nil
  then show ?case by simp
next
  case (Cons l ls)
  show ?case
  proof (cases "l_user_id l = u \<and> l_content_id l = c")
    case True
    then have "(u, c) \<notin> set (map (\<lambda>l. (l_user_id l, l_content_id l)) ls)"
      using Cons.prems(1) by auto
    then have "filter (\<lambda>l. \<not> (l_user_id l = u \<and> l_content_id l = c)) ls = ls"
      by (intro filter_True) force
    with True show ?thesis by simp
  next
    case False
    with Cons show ?thesis by auto
  qed
qed

lemma unlike_removes:
  "\<not> list_ex (\<lambda>l. l_user_id l = u \<and> l_content_id l = c)
       (filter (\<lambda>l. \<not> (l_user_id l = u \<and> l_content_id l = c)) ls)"
  by (simp add: list_ex_iff)

lemma unlike_of_fresh:
  "\<not> list_ex (\<lambda>l. l_user_id l = u \<and> l_content_id l = c) ls \<Longrightarrow>
   filter (\<lambda>l. \<not> (l_user_id l = u \<and> l_content_id l = c)) ls = ls"
  by (intro filter_True) (auto simp: list_ex_iff)

lemma toggleLike_twice_Some:
  assumes pk: "distinct (map (\<lambda>l. (l_user_id l, l_content_id l)) (likes s))"
    and fk: "\<forall>l\<in>set (likes s). l_user_id l \<in> set (map u_id (users s)) \<and>
                          l_content_id l \<in> set (map c_id (contents s))"
  shows "\<exists>s2. snd (toggleLike n2 u c (snd (toggleLike n1 u c (Some s)))) = Some s2 \<and>
           list_ex (\<lambda>l. l_user_id l = u \<and> l_content_id l = c) (likes s2) =
           list_ex (\<lambda>l. l_user_id l = u \<and> l_content_id l = c) (likes s) \<and>
           length (filter (\<lambda>l. l_content_id l = c) (likes s2)) =
           length (filter (\<lambda>l. l_content_id l = c) (likes s))"
proof (cases "list_ex (\<lambda>l. l_user_id l = u \<and> l_content_id l = c) (likes s)")
  case True
  define s1 where "s1 = s\<lparr>likes := filter (\<lambda>l. \<not> (l_user_id l = u \<and> l_content_id l = c)) (likes s)\<rparr>"
  have t1: "snd (toggleLike n1 u c (Some s)) = Some s1"
    using True by (simp add: toggleLike_def hasUserLiked_def Let_def s1_def)
  have nl: "\<not> list_ex (\<lambda>l. l_user_id l = u \<and> l_content_id l = c) (likes s1)"
    using unlike_removes [of u c "likes s"] by (simp add: s1_def)
  from True obtain l where "l \<in> set (likes s)" "l_user_id l = u" "l_content_id l = c"
    by (auto simp: list_ex_iff)
  with fk have ok: "u \<in> set (map u_id (users s1))" "c \<in> set (map c_id (contents s1))"
    by (auto simp: s1_def)
  define s2 where "s2 = s1\<lparr>likes := likes s1 @ [\<lparr>l_user_id = u, l_content_id = c, l_created_at = n2\<rparr>]\<rparr>"
  have t2: "snd (toggleLike n2 u c (Some s1)) = Some s2"
    using nl ok by (simp add: toggleLike_def hasUserLiked_def Let_def insert_likes_row_def s2_def)
  have "length (filter (\<lambda>l. l_content_id l = c) (likes s2)) =
        Suc (length (filter (\<lambda>l. l_content_id l = c) (likes s1)))"
    by (simp add: s2_def)
  also have "\<dots> = length (filter (\<lambda>l. l_content_id l = c) (likes s))"
    using count_after_unlike [OF pk True] by (simp add: s1_def)
  finally show ?thesis
    using True t1 t2 by (simp add: s2_def)
next
  case False
  show ?thesis
  proof (cases "insert_likes_row n1 u c s")
    case (Inl e)
    then have t1: "snd (toggleLike n1 u c (Some s)) = Some s"
      using False by (simp add: toggleLike_def hasUserLiked_def Let_def)
    have "insert_likes_row n2 u c s = Inl e"
      using Inl by (auto simp: insert_likes_row_def split: if_splits)
    then have "snd (toggleLike n2 u c (Some s)) = Some s"
      using False by (simp add: toggleLike_def hasUserLiked_def Let_def)
    with t1 show ?thesis by simp
  next
    case (Inr s1)
    then have s1: "s1 = s\<lparr>likes := likes s @ [\<lparr>l_user_id = u, l_content_id = c, l_created_at = n1\<rparr>]\<rparr>"
      by (auto simp: insert_likes_row_def split: if_splits)
    have t1: "snd (toggleLike n1 u c (Some s)) = Some s1"
      using False Inr by (simp add: toggleLike_def hasUserLiked_def Let_def)
    have "snd (toggleLike n2 u c (Some s1)) = Some s"
      using unlike_of_fresh [OF False]
      by (simp add: toggleLike_def hasUserLiked_def Let_def s1)
    with t1 show ?thesis by simp
  qed
qed

text \<open>
  Claim C2. For every user id, every content id and every state of the store (a state
  that meets the primary key and the foreign keys of \<open>likes\<close>, or no database at all),
  calling \<open>toggleLike\<close> twice in a row leaves \<open>hasUserLiked\<close> of the pair and
  \<open>getLikeCount\<close> of the content as they were before the first call.
\<close>

theorem toggleLike_twice:
  assumes "\<forall>s. db = Some s \<longrightarrow>
             distinct (map (\<lambda>l. (l_user_id l, l_content_id l)) (likes s)) \<and>
             (\<forall>l\<in>set (likes s). l_user_id l \<in> set (map u_id (users s)) \<and>
                                  l_content_id l \<in> set (map c_id (contents s)))"
  shows "hasUserLiked u c (snd (toggleLike n2 u c (snd (toggleLike n1 u c db)))) =
           hasUserLiked u c db \<and>
         getLikeCount c (snd (toggleLike n2 u c (snd (toggleLike n1 u c db)))) =
           getLikeCount c db"
proof (cases db)
  case None
  then show ?thesis by (simp add: toggleLike_def)
next
  case (Some s)
  with assms toggleLike_twice_Some [of s n2 u c n1] show ?thesis
    by (auto simp: hasUserLiked_def getLikeCount_def)
qed

theorem toggleLike_twice_witness:
  "hasUserLiked 1 2 (Some demo_store_3) \<and>
   getLikeCount 2 (Some demo_store_3) = 1 \<and>
   getLikeCount 2 (snd (toggleLike 5000 1 2 (Some demo_store_3))) = 0 \<and>
   hasUserLiked 1 2 (snd (toggleLike 6000 1 2 (snd (toggleLike 5000 1 2 (Some demo_store_3))))) =
     hasUserLiked 1 2 (Some demo_store_3) \<and>
   getLikeCount 2 (snd (toggleLike 6000 1 2 (snd (toggleLike 5000 1 2 (Some demo_store_3))))) =
     getLikeCount 2 (Some demo_store_3)"
proof -
  have ok: "\<forall>s. Some demo_store_3 = Some s \<longrightarrow>
             distinct (map (\<lambda>l. (l_user_id l, l_content_id l)) (likes s)) \<and>
             (\<forall>l\<in>set (likes s). l_user_id l \<in> set (map u_id (users s)) \<and>
                                  l_content_id l \<in> set (map c_id (contents s)))"
    by (simp add: demo_store_3_def demo_store_2_def demo_store_def demo_users_def
        demo_post_1_def demo_post_2_def)
  have "hasUserLiked 1 2 (Some demo_store_3)"
    by code_simp
  moreover have "getLikeCount 2 (Some demo_store_3) = 1"
    by code_simp
  moreover have "getLikeCount 2 (snd (toggleLike 5000 1 2 (Some demo_store_3))) = 0"
    by code_simp
  ultimately show ?thesis
    using toggleLike_twice [OF ok, of 1 2 6000 5000] by simp
qed

section \<open>Deleting a content\<close>

text \<open>
  Claim C3. For every content id, after \<open>deleteContentById\<close> no row of \<open>likes\<close> and no
  row of \<open>favorites\<close> references that content: \<open>getLikeCount\<close> is 0, and \<open>hasUserLiked\<close>
  and \<open>isFavorite\<close> are false for every user. (The state before the call meets the foreign
  keys of the two tables to \<open>contents\<close>.)
\<close>

theorem deleteContentById_cascades:
  assumes "\<forall>s. db = Some s \<longrightarrow>
             (\<forall>l\<in>set (likes s). l_content_id l \<in> set (map c_id (contents s))) \<and>
             (\<forall>f\<in>set (favorites s). f_content_id f \<in> set (map c_id (contents s)))"
  shows "getLikeCount i (snd (deleteContentById i db)) = 0 \<and>
         (\<forall>u. \<not> hasUserLiked u i (snd (deleteContentById i db))) \<and>
         (\<forall>u. \<not> isFavorite u i (snd (deleteContentById i db))) \<and>
         (\<forall>s'. snd (deleteContentById i db) = Some s' \<longrightarrow>
            (\<forall>l\<in>set (likes s'). l_content_id l \<noteq> i) \<and>
            (\<forall>f\<in>set (favorites s'). f_content_id f \<noteq> i))"
proof (cases db)
  case None
  then show ?thesis
    by (simp add: deleteContentById_def getLikeCount_def hasUserLiked_def isFavorite_def)
next
  case (Some s)
  define s' where "s' = snd (delete_contents_where_id i s)"
  have d: "snd (deleteContentById i db) = Some s'"
    using Some by (simp add: deleteContentById_def s'_def split: prod.splits)
  have l: "\<forall>l\<in>set (likes s'). l_content_id l \<noteq> i"
    using assms Some by (auto simp: s'_def delete_contents_where_id_def Let_def)
  have f: "\<forall>f\<in>set (favorites s'). f_content_id f \<noteq> i"
    using assms Some by (auto simp: s'_def delete_contents_where_id_def Let_def)
  have "filter (\<lambda>l. l_content_id l = i) (likes s') = []"
    using l by (simp add: filter_empty_conv)
  with d l f show ?thesis
    by (auto simp: getLikeCount_def hasUserLiked_def isFavorite_def list_ex_iff)
qed

theorem deleteContentById_cascades_witness:
  "getLikeCount 2 (Some demo_store_4) = 1 \<and>
   isFavorite 2 2 (Some demo_store_4) \<and>
   fst (deleteContentById 2 (Some demo_store_4)) = 1 \<and>
   getLikeCount 2 (snd (deleteContentById 2 (Some demo_store_4))) = 0 \<and>
   (\<forall>u. \<not> hasUserLiked u 2 (snd (deleteContentById 2 (Some demo_store_4)))) \<and>
   (\<forall>u. \<not> isFavorite u 2 (snd (deleteContentById 2 (Some demo_store_4))))"
proof -
  have ok: "\<forall>s. Some demo_store_4 = Some s \<longrightarrow>
             (\<forall>l\<in>set (likes s). l_content_id l \<in> set (map c_id (contents s))) \<and>
             (\<forall>f\<in>set (favorites s). f_content_id f \<in> set (map c_id (contents s)))"
    by (simp add: demo_store_4_def demo_store_3_def demo_store_2_def demo_store_def
        demo_post_1_def demo_post_2_def)
  have "getLikeCount 2 (Some demo_store_4) = 1"
    by code_simp
  moreover have "isFavorite 2 2 (Some demo_store_4)"
    by code_simp
  moreover have "fst (deleteContentById 2 (Some demo_store_4)) = 1"
    by code_simp
  ultimately show ?thesis
    using deleteContentById_cascades [OF ok, of 2] by simp
qed

section \<open>Editing a content\<close>

lemma left_join_owner_map:
  assumes "c_owner_id (g c) = c_owner_id c"
  shows "left_join_owner us (g c) = map (apfst g) (left_join_owner us c)"
  using assms by (simp add: left_join_owner_def split: list.splits)

lemma contents_with_owner_map:
  assumes "\<And>c. c_owner_id (g c) = c_owner_id c"
  shows "contents_with_owner (s\<lparr>contents := map g (contents s)\<rparr>) =
         map (apfst g) (contents_with_owner s)"
proof -
  have "\<And>c. left_join_owner (users s) (g c) = map (apfst g) (left_join_owner (users s) c)"
    using assms by (rule left_join_owner_map)
  then show ?thesis
    by (simp add: contents_with_owner_def map_concat comp_def)
qed

lemma left_join_owner_fst: "r \<in> set (left_join_owner us c) \<Longrightarrow> fst r = c"
  by (auto simp: left_join_owner_def split: list.splits)

lemma contents_with_owner_fst:
  "r \<in> set (contents_with_owner s) \<Longrightarrow> fst r \<in> set (contents s)"
  by (auto simp: contents_with_owner_def dest: left_join_owner_fst)

lemma left_join_owner_nonempty: "left_join_owner us c \<noteq> []"
  by (simp add: left_join_owner_def split: list.splits)

lemma contents_with_owner_hits:
  "c \<in> set (contents s) \<Longrightarrow> \<exists>r\<in>set (contents_with_owner s). fst r = c"
proof -
  assume c: "c \<in> set (contents s)"
  obtain r where r: "r \<in> set (left_join_owner (users s) c)"
    using left_join_owner_nonempty [of "users s" c] by (cases "left_join_owner (users s) c") auto
  then have "fst r = c" by (rule left_join_owner_fst)
  moreover have "r \<in> set (contents_with_owner s)"
    using c r by (auto simp: contents_with_owner_def)
  ultimately show ?thesis by blast
qed

lemma updateContent_Some:
  "updateContent a (Some s) =
     (if list_ex (\<lambda>c. c_id c = cu_id a) (contents s) \<and>
         to_text (cu_category a) \<notin> set CATEGORIES
      then (Inl SQLITE_CONSTRAINT_CHECK, Some s)
      else (Inr (length (filter (\<lambda>c. c_id c = cu_id a) (contents s))),
            Some (s\<lparr>contents := map (\<lambda>c. if c_id c = cu_id a then assign a c else c)
                                     (contents s)\<rparr>)))"
  by (auto simp: updateContent_def update_contents_where_id_def assign_def Let_def list_ex_iff)

lemma view_of_assign:
  "view_of (assign a c, u) =
     (view_of (c, u))\<lparr>v_title := to_text (cu_title a),
        v_description := to_text (cu_description a),
        v_category := to_text (cu_category a),
        v_imagePath := (case cu_imagePath a of
                          None \<Rightarrow> v_imagePath (view_of (c, u))
                        | Some p \<Rightarrow> if p = [] then v_imagePath (view_of (c, u))
                                    else to_text p)\<rparr>"
  by (simp add: view_of_def assign_def truthy_def split: option.splits)

lemma to_text_category: "c \<in> set CATEGORIES \<Longrightarrow> to_text c = c"
  by (rule to_text_plain) (auto simp: CATEGORIES_def js_def is_high_def is_low_def)


text \<open>
  Claim C4. For every existing content (one that \<open>getContentById\<close> finds) and a category of
  the fixed set, \<open>updateContent\<close> succeeds and overwrites title, description and category.
  With an image reference supplied (a non-empty string) the image reference is overwritten
  too; without one (\<open>undefined\<close>, \<open>null\<close> or the empty string) the stored image reference
  stays as it was. Nothing else of what \<open>getContentById\<close> returns changes. What is stored
  and read back is the supplied string as text (\<open>to_text\<close>): the string itself, unless it
  holds an unpaired surrogate, which the store holds as \<open>U+FFFD\<close>.
\<close>

theorem updateContent_overwrites:
  assumes found: "getContentById (cu_id a) (Some s) = Some v"
    and cat: "cu_category a \<in> set CATEGORIES"
  shows "\<exists>n s'. updateContent a (Some s) = (Inr n, Some s') \<and> 0 < n \<and>
           getContentById (cu_id a) (Some s') =
             Some (v\<lparr>v_title := to_text (cu_title a),
                     v_description := to_text (cu_description a),
                     v_category := cu_category a,
                     v_imagePath := (case cu_imagePath a of
                                       None \<Rightarrow> v_imagePath v
                                     | Some p \<Rightarrow> if p = [] then v_imagePath v
                                                 else to_text p)\<rparr>)"
proof -
  let ?g = "\<lambda>c. if c_id c = cu_id a then assign a c else c"
  define s' where "s' = s\<lparr>contents := map ?g (contents s)\<rparr>"
  define n where "n = length (filter (\<lambda>c. c_id c = cu_id a) (contents s))"
  have up: "updateContent a (Some s) = (Inr n, Some s')"
    using cat by (simp add: updateContent_Some s'_def n_def to_text_category)
  from found obtain r rs where
    rows: "filter (\<lambda>r. c_id (fst r) = cu_id a) (contents_with_owner s) = r # rs"
    and v: "v = view_of r"
    by (auto simp: getContentById_def split: list.splits)
  obtain c u where ru: "r = (c, u)"
    by (cases r)
  have "r \<in> set (filter (\<lambda>r. c_id (fst r) = cu_id a) (contents_with_owner s))"
    using rows by simp
  then have r: "r \<in> set (contents_with_owner s)" "c_id (fst r) = cu_id a"
    by simp_all
  then have "fst r \<in> set (filter (\<lambda>c. c_id c = cu_id a) (contents s))"
    using contents_with_owner_fst by auto
  then have pos: "0 < n"
    unfolding n_def by (metis length_pos_if_in_set)
  have g: "\<And>c. c_owner_id (?g c) = c_owner_id c" "\<And>c. c_id (?g c) = c_id c"
    by (simp_all add: assign_def)
  have "filter (\<lambda>r. c_id (fst r) = cu_id a) (contents_with_owner s') =
        map (apfst ?g) (filter (\<lambda>r. c_id (fst r) = cu_id a) (contents_with_owner s))"
    unfolding s'_def contents_with_owner_map [of ?g, OF g(1)]
    by (simp add: filter_map comp_def g(2))
  then have "getContentById (cu_id a) (Some s') = Some (view_of (apfst ?g r))"
    using rows by (simp add: getContentById_def)
  also have "apfst ?g r = (assign a c, u)"
    using r(2) by (simp add: ru)
  also have "view_of (assign a c, u) =
      v\<lparr>v_title := to_text (cu_title a), v_description := to_text (cu_description a),
        v_category := to_text (cu_category a),
        v_imagePath := (case cu_imagePath a of
                          None \<Rightarrow> v_imagePath v
                        | Some p \<Rightarrow> if p = [] then v_imagePath v else to_text p)\<rparr>"
    unfolding v ru by (rule view_of_assign)
  finally show ?thesis
    using up pos by (auto simp: to_text_category [OF cat])
qed

lemma demo_view_2_found: "getContentById 2 (Some demo_store_3) = Some demo_view_2"
  by code_simp

lemma demo_update_text:
  "to_text (cu_title demo_update) = js ''Zeitmaschine II''"
  "to_text (cu_description demo_update) = js ''Remake, 2002''"
  by code_simp+

lemma demo_update_unpaired:
  "map_option v_title
     (getContentById 2
        (snd (updateContent (demo_update\<lparr>cu_title := [90, 0xDC00]\<rparr>) (Some demo_store_3)))) =
   Some [90, 0xFFFD]"
  by code_simp

theorem updateContent_overwrites_witness:
  "getContentById 2 (Some demo_store_3) = Some demo_view_2 \<and>
   updateContent demo_update (Some demo_store_3) = (Inr 1, Some demo_store_5) \<and>
   getContentById 2 (Some demo_store_5) =
     Some (demo_view_2\<lparr>v_title := js ''Zeitmaschine II'', v_description := js ''Remake, 2002'',
             v_category := js ''horror''\<rparr>) \<and>
   map_option v_imagePath (getContentById 2 (Some demo_store_5)) = Some (js ''/uploads/2.png'')"
proof -
  have up: "updateContent demo_update (Some demo_store_3) = (Inr 1, Some demo_store_5)"
    by code_simp
  have found: "getContentById (cu_id demo_update) (Some demo_store_3) = Some demo_view_2"
    using demo_view_2_found by (simp add: demo_update_def)
  have cat: "cu_category demo_update \<in> set CATEGORIES"
    by (simp add: demo_update_def CATEGORIES_def)
  from updateContent_overwrites [OF found cat] up
  have "getContentById (cu_id demo_update) (Some demo_store_5) =
          Some (demo_view_2\<lparr>v_title := to_text (cu_title demo_update),
                  v_description := to_text (cu_description demo_update),
                  v_category := cu_category demo_update,
                  v_imagePath := (case cu_imagePath demo_update of
                                    None \<Rightarrow> v_imagePath demo_view_2
                                  | Some p \<Rightarrow> if p = [] then v_imagePath demo_view_2
                                              else to_text p)\<rparr>)"
    by auto
  then have "getContentById (cu_id demo_update) (Some demo_store_5) =
          Some (demo_view_2\<lparr>v_title := js ''Zeitmaschine II'',
                  v_description := js ''Remake, 2002'',
                  v_category := cu_category demo_update,
                  v_imagePath := (case cu_imagePath demo_update of
                                    None \<Rightarrow> v_imagePath demo_view_2
                                  | Some p \<Rightarrow> if p = [] then v_imagePath demo_view_2
                                              else to_text p)\<rparr>)"
    by (simp only: demo_update_text)
  then have "getContentById 2 (Some demo_store_5) =
     Some (demo_view_2\<lparr>v_title := js ''Zeitmaschine II'', v_description := js ''Remake, 2002'',
             v_category := js ''horror''\<rparr>)"
    by (simp add: demo_update_def)
  with up demo_view_2_found show ?thesis
    by (simp add: demo_view_2_def)
qed

text \<open>
  Claim C10. \<open>updateContent\<close> changes at most the title, the description, the category and
  the image reference of the addressed row: the id, the slug, the owner and the creation
  time of every row stay as they were (a new title does not make a new slug), every row of
  another id is left as it was, and so are the other tables. This holds whether the call
  succeeds or fails.
\<close>

theorem updateContent_frame:
  assumes "updateContent a (Some s) = (r, db')"
  shows "\<exists>s'. db' = Some s' \<and>
           users s' = users s \<and> likes s' = likes s \<and> favorites s' = favorites s \<and>
           length (contents s') = length (contents s) \<and>
           (\<forall>k<length (contents s).
              c_id (contents s' ! k) = c_id (contents s ! k) \<and>
              c_slug (contents s' ! k) = c_slug (contents s ! k) \<and>
              c_owner_id (contents s' ! k) = c_owner_id (contents s ! k) \<and>
              c_created_at (contents s' ! k) = c_created_at (contents s ! k) \<and>
              (c_id (contents s ! k) \<noteq> cu_id a \<longrightarrow> contents s' ! k = contents s ! k))"
proof (cases "list_ex (\<lambda>c. c_id c = cu_id a) (contents s) \<and>
    to_text (cu_category a) \<notin> set CATEGORIES")
  case True
  then have "updateContent a (Some s) = (Inl SQLITE_CONSTRAINT_CHECK, Some s)"
    by (simp add: updateContent_Some)
  with assms show ?thesis by auto
next
  case False
  then have "updateContent a (Some s) =
      (Inr (length (filter (\<lambda>c. c_id c = cu_id a) (contents s))),
       Some (s\<lparr>contents := map (\<lambda>c. if c_id c = cu_id a then assign a c else c) (contents s)\<rparr>))"
    by (simp add: updateContent_Some)
  with assms show ?thesis by (auto simp: assign_def)
qed

theorem updateContent_frame_witness:
  "updateContent demo_update (Some demo_store_3) = (Inr 1, Some demo_store_5) \<and>
   likes demo_store_5 = likes demo_store_3 \<and>
   contents demo_store_5 ! 0 = contents demo_store_3 ! 0 \<and>
   c_slug (contents demo_store_5 ! 1) = c_slug (contents demo_store_3 ! 1) \<and>
   c_slug (contents demo_store_5 ! 1) = Some (js ''die-zeitmaschine-2'') \<and>
   c_owner_id (contents demo_store_5 ! 1) = c_owner_id (contents demo_store_3 ! 1) \<and>
   c_created_at (contents demo_store_5 ! 1) = c_created_at (contents demo_store_3 ! 1) \<and>
   c_title (contents demo_store_5 ! 1) = js ''Zeitmaschine II''"
proof -
  have up: "updateContent demo_update (Some demo_store_3) = (Inr 1, Some demo_store_5)"
    by code_simp
  have len: "length (contents demo_store_3) = 2"
    by (simp add: demo_store_3_def demo_store_2_def)
  have other: "c_id (contents demo_store_3 ! 0) \<noteq> cu_id demo_update"
    by (simp add: demo_store_3_def demo_store_2_def demo_post_1_def demo_update_def)
  have new: "c_slug (contents demo_store_5 ! 1) = Some (js ''die-zeitmaschine-2'')"
      "c_title (contents demo_store_5 ! 1) = js ''Zeitmaschine II''"
    by (simp_all add: demo_store_5_def demo_post_2_def)
  from updateContent_frame [OF up]
  have frame: "likes demo_store_5 = likes demo_store_3"
    "\<forall>k<length (contents demo_store_3).
        c_id (contents demo_store_5 ! k) = c_id (contents demo_store_3 ! k) \<and>
        c_slug (contents demo_store_5 ! k) = c_slug (contents demo_store_3 ! k) \<and>
        c_owner_id (contents demo_store_5 ! k) = c_owner_id (contents demo_store_3 ! k) \<and>
        c_created_at (contents demo_store_5 ! k) = c_created_at (contents demo_store_3 ! k) \<and>
        (c_id (contents demo_store_3 ! k) \<noteq> cu_id demo_update \<longrightarrow>
           contents demo_store_5 ! k = contents demo_store_3 ! k)"
    by auto
  from frame(2) len other have "contents demo_store_5 ! 0 = contents demo_store_3 ! 0"
    by auto
  moreover from frame(2) len have
    "c_slug (contents demo_store_5 ! 1) = c_slug (contents demo_store_3 ! 1)"
    "c_owner_id (contents demo_store_5 ! 1) = c_owner_id (contents demo_store_3 ! 1)"
    "c_created_at (contents demo_store_5 ! 1) = c_created_at (contents demo_store_3 ! 1)"
    by auto
  ultimately show ?thesis
    using up frame(1) new by simp
qed

section \<open>Users and their emails\<close>








text \<open>
  \<open>NOCASE\<close> does not look behind a zero byte: two emails of the same length that agree
  up to a \<open>U+0000\<close> are one email for the unique index.
\<close>

lemma nocase_key_zero_byte:
  "nocase_key (js ''a'' @ [0] @ js ''b@x.org'') = nocase_key (js ''A'' @ [0] @ js ''c@x.org'')"
  by code_simp




lemma find_unique_email:
  assumes "distinct (map nocase_key (concat (map (\<lambda>u. case u_email u of None \<Rightarrow> [] | Some e \<Rightarrow> [e]) us)))"
    and "u \<in> set us" and "u_email u = Some e"
  shows "find (\<lambda>u. u_email u = Some e) us = Some u"
  using assms
proof (induction us)
  case Nil
  then show ?case by simp
next
  case (Cons x xs)
  show ?case
  proof (cases "u_email x = Some e")
    case True
    have "x = u"
    proof (rule ccontr)
      assume "x \<noteq> u"
      with Cons.prems(2) have "u \<in> set xs" by simp
      with Cons.prems(3) have "e \<in> set (concat (map (\<lambda>u. case u_email u of None \<Rightarrow> [] | Some e \<Rightarrow> [e]) xs))"
        by force
      then have "nocase_key e \<in> set (map nocase_key (concat (map (\<lambda>u. case u_email u of None \<Rightarrow> [] | Some e \<Rightarrow> [e]) xs)))"
        by simp
      with Cons.prems(1) True show False by simp
    qed
    with True show ?thesis by simp
  next
    case False
    with Cons.prems have "u \<in> set xs" by auto
    moreover have "distinct (map nocase_key (concat (map (\<lambda>u. case u_email u of None \<Rightarrow> [] | Some e \<Rightarrow> [e]) xs)))"
      using Cons.prems(1) by simp
    ultimately show ?thesis using Cons.IH Cons.prems(3) False by simp
  qed
qed

text \<open>
  Claim C6 says that \<open>getUserByEmail\<close> finds a user by an email that equals the stored one
  up to letter case. It does not: \<open>WHERE email = ?\<close> compares exactly, and Erika, stored as
  \<open>erika@example.org\<close>, is not found as \<open>Erika@Example.org\<close>, although the two are equal
  under \<open>NOCASE\<close>.
\<close>

theorem getUserByEmail_case_counterexample:
  "u_email demo_erika = Some (js ''erika@example.org'') \<and>
   getUserByEmail (js ''erika@example.org'') (Some demo_store) = Some demo_erika \<and>
   nocase_key (js ''Erika@Example.org'') = nocase_key (js ''erika@example.org'') \<and>
   getUserByEmail (js ''Erika@Example.org'') (Some demo_store) = None"
  by code_simp

text \<open>
  Claim C6, amended. \<open>getUserByEmail\<close> compares the stored emails with the text of its
  argument (\<open>to_text\<close>: the argument itself, unless it holds an unpaired surrogate, which
  is bound as \<open>U+FFFD\<close>), exactly and not up to letter case. For every stored user whose
  email is that text it returns that user's full row, password hash included; when no
  stored email is that text, the result is absent, never an error. The store meets the
  unique index on the email.
\<close>

theorem getUserByEmail_exact:
  assumes "unique_emails s"
  shows "(u \<in> set (users s) \<and> u_email u = Some (to_text x)
            \<longrightarrow> getUserByEmail x (Some s) = Some u) \<and>
         ((\<forall>u\<in>set (users s). u_email u \<noteq> Some (to_text x))
            \<longrightarrow> getUserByEmail x (Some s) = None)"
  using assms find_unique_email [of "users s" u "to_text x"]
  by (auto simp: getUserByEmail_def unique_emails_def find_None_iff)

lemma demo_email_text:
  "to_text (js ''erika@example.org'') = js ''erika@example.org''"
  "to_text (js ''nobody@example.org'') = js ''nobody@example.org''"
  by code_simp+

lemma demo_email_unpaired:
  "map_option u_email
     (getUserByEmail (0xDC00 # js ''@example.org'')
        (snd (createUser 5000
                \<lparr>nu_name = js ''Kim'', nu_email = Some (0xFFFD # js ''@example.org''),
                 nu_passwordHash = None, nu_role = None\<rparr>
                (Some demo_store)))) =
   Some (Some (0xFFFD # js ''@example.org''))"
  by code_simp

theorem getUserByEmail_exact_witness:
  "getUserByEmail (js ''erika@example.org'') (Some demo_store) = Some demo_erika \<and>
   u_password_hash demo_erika = Some (js ''$2b$11$abc'') \<and>
   getUserByEmail (js ''nobody@example.org'') (Some demo_store) = None"
proof -
  have idx: "unique_emails demo_store"
    by code_simp
  have erika: "demo_erika \<in> set (users demo_store)"
      "u_email demo_erika = Some (to_text (js ''erika@example.org''))"
      "u_password_hash demo_erika = Some (js ''$2b$11$abc'')"
    by (simp_all add: demo_email_text) (simp_all add: demo_store_def demo_users_def demo_erika_def)
  have nobody: "\<forall>u\<in>set (users demo_store).
      u_email u \<noteq> Some (to_text (js ''nobody@example.org''))"
    by (simp add: demo_email_text) (simp add: demo_store_def demo_users_def demo_erika_def js_def)
  show ?thesis
    using getUserByEmail_exact [OF idx, of demo_erika "js ''erika@example.org''"]
      getUserByEmail_exact [OF idx, of demo_erika "js ''nobody@example.org''"]
      erika nobody
    by simp
qed

section \<open>The listing ordered by likes\<close>

lemma set_insert_by: "set (insert_by ahead x ys) = insert x (set ys)"
  by (induction ys) auto

lemma mset_insert_by: "mset (insert_by ahead x ys) = add_mset x (mset ys)"
  by (induction ys) auto

lemma mset_order_by: "mset (order_by ahead xs) = mset xs"
  by (induction xs) (simp_all add: order_by_def mset_insert_by)

lemma set_order_by: "set (order_by ahead xs) = set xs"
  by (metis mset_order_by set_mset_mset)

lemma sorted_insert_by:
  assumes asym: "\<And>p q. ahead p q \<Longrightarrow> \<not> ahead q p"
    and negtrans: "\<And>p q r. \<not> ahead p q \<Longrightarrow> \<not> ahead q r \<Longrightarrow> \<not> ahead p r"
  shows "sorted_wrt (\<lambda>p q. \<not> ahead q p) ys \<Longrightarrow>
         sorted_wrt (\<lambda>p q. \<not> ahead q p) (insert_by ahead x ys)"
proof (induction ys)
  case Nil
  then show ?case by simp
next
  case (Cons y ys)
  show ?case
  proof (cases "ahead y x")
    case True
    with Cons asym show ?thesis
      by (auto simp: set_insert_by)
  next
    case False
    have "\<forall>z\<in>set ys. \<not> ahead z x"
      using Cons.prems False negtrans by auto
    with Cons.prems False show ?thesis by simp
  qed
qed

lemma sorted_order_by:
  assumes "\<And>p q. ahead p q \<Longrightarrow> \<not> ahead q p"
    and "\<And>p q r. \<not> ahead p q \<Longrightarrow> \<not> ahead q r \<Longrightarrow> \<not> ahead p r"
  shows "sorted_wrt (\<lambda>p q. \<not> ahead q p) (order_by ahead xs)"
proof (induction xs)
  case Nil
  then show ?case by (simp add: order_by_def)
next
  case (Cons x xs)
  have "sorted_wrt (\<lambda>p q. \<not> ahead q p) (insert_by ahead x (order_by ahead xs))"
    using assms Cons.IH sorted_insert_by [of ahead "order_by ahead xs" x] by blast
  then show ?case by (simp add: order_by_def)
qed

lemma sorted_wrt_strict:
  assumes "\<And>p q. P p q \<Longrightarrow> f p \<noteq> f q \<Longrightarrow> Q p q"
  shows "sorted_wrt P xs \<Longrightarrow> distinct (map f xs) \<Longrightarrow> sorted_wrt Q xs"
  by (induction xs) (auto intro: assms)

lemma filter_key_unique:
  "distinct (map f xs) \<Longrightarrow> filter (\<lambda>x. f x = k) xs = [] \<or> (\<exists>y. filter (\<lambda>x. f x = k) xs = [y])"
proof (induction xs)
  case Nil
  then show ?case by simp
next
  case (Cons x xs)
  show ?case
  proof (cases "f x = k")
    case True
    then have "k \<notin> f ` set xs" using Cons.prems by auto
    then have "filter (\<lambda>x. f x = k) xs = []"
      by (auto simp: filter_empty_conv)
    with True show ?thesis by simp
  next
    case False
    with Cons show ?thesis by simp
  qed
qed

lemma left_join_owner_single:
  assumes "distinct (map u_id us)"
  shows "map fst (left_join_owner us c) = [c]"
  using filter_key_unique [OF assms, of "c_owner_id c"]
  by (auto simp: left_join_owner_def)

lemma contents_with_owner_rows:
  assumes "distinct (map u_id (users s))"
  shows "map fst (contents_with_owner s) = contents s"
proof -
  have "map fst (contents_with_owner s) =
        concat (map (\<lambda>c. map fst (left_join_owner (users s) c)) (contents s))"
    by (simp add: contents_with_owner_def map_concat comp_def)
  also have "\<dots> = concat (map (\<lambda>c. [c]) (contents s))"
    by (simp add: left_join_owner_single [OF assms])
  also have "\<dots> = contents s"
    by (induction "contents s") (simp_all add: concat_map_singleton)
  finally show ?thesis .
qed

lemma coalesce_likeCount_eq:
  "coalesce_likeCount s i = length (filter (\<lambda>l. l_content_id l = i) (likes s))"
proof (cases "i \<in> set (map l_content_id (likes s))")
  case True
  then have "map_of (like_counts s) i = Some (length (filter (\<lambda>l. l_content_id l = i) (likes s)))"
    unfolding like_counts_def
    by (intro map_of_is_SomeI) (auto simp: distinct_map comp_def inj_on_def)
  then show ?thesis by (simp add: coalesce_likeCount_def)
next
  case False
  then have "map_of (like_counts s) i = None"
    by (force simp: like_counts_def map_of_eq_None_iff)
  moreover have "filter (\<lambda>l. l_content_id l = i) (likes s) = []"
    using False by (auto simp: filter_empty_conv)
  ultimately show ?thesis by (simp add: coalesce_likeCount_def)
qed

lemma by_likes_asym: "by_likes p q \<Longrightarrow> \<not> by_likes q p"
  by (auto simp: by_likes_def)

lemma by_likes_negtrans: "\<not> by_likes p q \<Longrightarrow> \<not> by_likes q r \<Longrightarrow> \<not> by_likes p r"
  by (auto simp: by_likes_def)

lemma by_likes_total: "\<not> by_likes q p \<Longrightarrow> v_id p \<noteq> v_id q \<Longrightarrow> by_likes p q"
  by (auto simp: by_likes_def)

text \<open>
  Claim C7. With no category filter, no owner filter and \<open>sort = 'likes'\<close>,
  \<open>listContentsFiltered\<close> returns every content exactly once, ordered by like count
  descending, then by creation time descending, then by id descending, and the \<open>likeCount\<close>
  of each row is the number of rows of \<open>likes\<close> for that content. The store meets the
  primary keys of \<open>users\<close> and \<open>contents\<close>.
\<close>

theorem listContentsFiltered_by_likes:
  assumes users_pk: "distinct (map u_id (users s))"
    and contents_pk: "distinct (map c_id (contents s))"
    and no_filter: "lf_category a = None" "lf_ownerId a = None"
    and sort: "lf_sort a = js ''likes''"
  shows "mset (map (\<lambda>r. (v_id r, v_title r, v_description r, v_category r, v_imagePath r,
                        v_slug r, v_ownerId r, v_createdAt r))
                (listContentsFiltered a (Some s))) =
         mset (map (\<lambda>c. (c_id c, c_title c, c_description c, c_category c, c_image_path c,
                        c_slug c, c_owner_id c, c_created_at c))
                (contents s)) \<and>
         sorted_wrt (\<lambda>p q. v_likeCount p > v_likeCount q \<or>
                      (v_likeCount p = v_likeCount q \<and>
                        (v_createdAt p > v_createdAt q \<or>
                         (v_createdAt p = v_createdAt q \<and> v_id p > v_id q))))
           (listContentsFiltered a (Some s)) \<and>
         (\<forall>r\<in>set (listContentsFiltered a (Some s)).
            v_likeCount r = getLikeCount (v_id r) (Some s))"
proof -
  define rows where
    "rows = map (\<lambda>r. listing_of r (coalesce_likeCount s (c_id (fst r)))) (contents_with_owner s)"
  have res: "listContentsFiltered a (Some s) = order_by by_likes rows"
    using no_filter sort by (simp add: listContentsFiltered_def truthy_def rows_def)
  have proj: "map (\<lambda>r. (v_id r, v_title r, v_description r, v_category r, v_imagePath r,
                        v_slug r, v_ownerId r, v_createdAt r)) rows =
        map (\<lambda>c. (c_id c, c_title c, c_description c, c_category c, c_image_path c,
                        c_slug c, c_owner_id c, c_created_at c)) (map fst (contents_with_owner s))"
    by (simp add: rows_def listing_of_def comp_def)
  have "mset (map (\<lambda>r. (v_id r, v_title r, v_description r, v_category r, v_imagePath r,
                        v_slug r, v_ownerId r, v_createdAt r)) (order_by by_likes rows)) =
        mset (map (\<lambda>r. (v_id r, v_title r, v_description r, v_category r, v_imagePath r,
                        v_slug r, v_ownerId r, v_createdAt r)) rows)"
    by (simp add: mset_order_by)
  then have all: "mset (map (\<lambda>r. (v_id r, v_title r, v_description r, v_category r, v_imagePath r,
                        v_slug r, v_ownerId r, v_createdAt r)) (order_by by_likes rows)) =
         mset (map (\<lambda>c. (c_id c, c_title c, c_description c, c_category c, c_image_path c,
                        c_slug c, c_owner_id c, c_created_at c)) (contents s))"
    by (simp only: proj contents_with_owner_rows [OF users_pk])
  have "map v_id rows = map c_id (map fst (contents_with_owner s))"
    by (simp add: rows_def listing_of_def comp_def)
  then have "distinct (map v_id rows)"
    using contents_pk by (simp only: contents_with_owner_rows [OF users_pk])
  moreover have "mset (map v_id (order_by by_likes rows)) = mset (map v_id rows)"
    by (simp add: mset_order_by)
  ultimately have ids: "distinct (map v_id (order_by by_likes rows))"
    by (metis mset_eq_imp_distinct_iff)
  have "sorted_wrt (\<lambda>p q. \<not> by_likes q p) (order_by by_likes rows)"
    by (rule sorted_order_by [OF by_likes_asym by_likes_negtrans])
  then have "sorted_wrt by_likes (order_by by_likes rows)"
    using ids by_likes_total
      sorted_wrt_strict [of "\<lambda>p q. \<not> by_likes q p" v_id by_likes "order_by by_likes rows"]
    by blast
  then have ordered: "sorted_wrt (\<lambda>p q. v_likeCount p > v_likeCount q \<or>
                      (v_likeCount p = v_likeCount q \<and>
                        (v_createdAt p > v_createdAt q \<or>
                         (v_createdAt p = v_createdAt q \<and> v_id p > v_id q))))
           (order_by by_likes rows)"
    by (simp add: by_likes_def [abs_def])
  have counts: "\<forall>r\<in>set (order_by by_likes rows). v_likeCount r = getLikeCount (v_id r) (Some s)"
    by (auto simp: set_order_by rows_def listing_of_def coalesce_likeCount_eq getLikeCount_def)
  from all ordered counts show ?thesis
    by (simp only: res) 
qed

theorem listContentsFiltered_by_likes_witness:
  "map v_id (listContentsFiltered \<lparr>lf_category = None, lf_ownerId = None, lf_sort = js ''likes''\<rparr>
              (Some demo_store_3)) = [2, 1] \<and>
   map v_likeCount (listContentsFiltered \<lparr>lf_category = None, lf_ownerId = None, lf_sort = js ''likes''\<rparr>
              (Some demo_store_3)) = [1, 0] \<and>
   map v_id (listContentsFiltered \<lparr>lf_category = None, lf_ownerId = None, lf_sort = js ''newest''\<rparr>
              (Some demo_store_3)) = [2, 1] \<and>
   sorted_wrt (\<lambda>p q. v_likeCount p > v_likeCount q \<or>
                (v_likeCount p = v_likeCount q \<and>
                  (v_createdAt p > v_createdAt q \<or>
                   (v_createdAt p = v_createdAt q \<and> v_id p > v_id q))))
     (listContentsFiltered \<lparr>lf_category = None, lf_ownerId = None, lf_sort = js ''likes''\<rparr>
        (Some demo_store_3))"
proof -
  have pk: "distinct (map u_id (users demo_store_3))" "distinct (map c_id (contents demo_store_3))"
    by (simp_all add: demo_store_3_def demo_store_2_def demo_store_def demo_users_def
        demo_erika_def demo_post_1_def demo_post_2_def)
  have ids: "map v_id (listContentsFiltered
      \<lparr>lf_category = None, lf_ownerId = None, lf_sort = js ''likes''\<rparr> (Some demo_store_3)) = [2, 1]"
    by code_simp
  have counts: "map v_likeCount (listContentsFiltered
      \<lparr>lf_category = None, lf_ownerId = None, lf_sort = js ''likes''\<rparr> (Some demo_store_3)) = [1, 0]"
    by code_simp
  have newest: "map v_id (listContentsFiltered
      \<lparr>lf_category = None, lf_ownerId = None, lf_sort = js ''newest''\<rparr> (Some demo_store_3)) = [2, 1]"
    by code_simp
  show ?thesis
    using ids counts newest
      listContentsFiltered_by_likes [OF pk,
        of "\<lparr>lf_category = None, lf_ownerId = None, lf_sort = js ''likes''\<rparr>"]
    by simp
qed

section \<open>No database\<close>

text \<open>
  Claim C9 says that without a database handle every operation gives an empty result, and
  that list operations give the empty sequence. \<open>getAllUsers\<close> does not: it returns the
  three rows of \<open>fallbackUsers\<close>.
\<close>

theorem getAllUsers_no_database_counterexample:
  "getAllUsers None \<noteq> [] \<and>
   map uv_name (getAllUsers None) = [js ''DB'', js ''Fallback'', js ''Data'']"
  by (simp add: getAllUsers_def fallbackUsers_def)

text \<open>
  Claim C9, amended. Without a database handle \<open>getAllUsers\<close> returns the three
  \<open>fallbackUsers\<close>; every other operation gives its empty result: the list operations the
  empty sequence, the lookups an absent result, the counts 0, the tests \<open>false\<close>, the
  inserts \<open>null\<close>, update and delete 0 changes, and the toggles "not set".
\<close>

theorem no_database_results:
  "getAllUsers None = fallbackUsers \<and>
   length (getAllUsers None) = 3 \<and>
   insertUser now name role None = (Inr None, None) \<and>
   getUserByEmail email None = None \<and>
   createUser now nu None = (Inr None, None) \<and>
   listContents None = [] \<and>
   insertContent rt now nc None = (Inr None, None) \<and>
   getContentBySlug slug None = None \<and>
   getContentById i None = None \<and>
   updateContent cu None = (Inr 0, None) \<and>
   deleteContentById i None = (0, None) \<and>
   getLikeCount i None = 0 \<and>
   hasUserLiked u i None = False \<and>
   toggleLike now u i None = (Inr \<lparr>lr_liked = False, lr_count = 0\<rparr>, None) \<and>
   getUserLikedIds u None = {} \<and>
   isFavorite u i None = False \<and>
   toggleFavorite now u i None = (Inr False, None) \<and>
   listFavoritesOfUser u None = [] \<and>
   listAuthors None = [] \<and>
   listContentsFiltered lf None = []"
  by (simp add: getAllUsers_def fallbackUsers_def insertUser_def getUserByEmail_def
      createUser_def listContents_def insertContent_def getContentBySlug_def
      getContentById_def updateContent_def deleteContentById_def getLikeCount_def
      hasUserLiked_def toggleLike_def getUserLikedIds_def isFavorite_def toggleFavorite_def
      listFavoritesOfUser_def listAuthors_def listContentsFiltered_def)

theorem no_database_results_witness:
  "length (getAllUsers None) = 3 \<and>
   listContents None = [] \<and>
   listContentsFiltered \<lparr>lf_category = None, lf_ownerId = None, lf_sort = js ''likes''\<rparr> None = [] \<and>
   getUserByEmail (js ''erika@example.org'') None = None \<and>
   getLikeCount 2 None = 0 \<and>
   toggleLike 5000 1 2 None = (Inr \<lparr>lr_liked = False, lr_count = 0\<rparr>, None)"
  using no_database_results
    [of 5000 "js ''Kim''" None "js ''erika@example.org''"
        "\<lparr>nu_name = js ''Kim'', nu_email = None, nu_passwordHash = None, nu_role = None\<rparr>"
        ascii_rt
        "\<lparr>nc_title = js ''T'', nc_description = js ''D'', nc_category = js ''sifi'',
          nc_imagePath = js ''/uploads/1.png'', nc_ownerId = 1\<rparr>"
        "js ''t''" 2 demo_update 1
        "\<lparr>lf_category = None, lf_ownerId = None, lf_sort = js ''likes''\<rparr>"]
  by (simp add: fallbackUsers_def)

section \<open>The constraints hold in every state the operations reach\<close>

text \<open>
  The theorems above ask of the state what the schema guarantees. These constraints hold
  in the empty database and every writing operation keeps them, whether it succeeds or
  throws; and \<open>insertContent\<close> does succeed for a category of the fixed set and an existing
  owner, because the slug it makes is never in use.
\<close>

lemma fold_max_ge_seq: "seq \<le> fold max ids (seq::int)"
  by (induction ids arbitrary: seq) (auto intro: order_trans [OF max.cobounded2])

lemma fold_max_ge: "i \<in> set ids \<Longrightarrow> i \<le> fold max ids (seq::int)"
proof (induction ids arbitrary: seq)
  case Nil
  then show ?case by simp
next
  case (Cons x xs)
  show ?case
  proof (cases "i = x")
    case True
    have "x \<le> max x seq" by simp
    also have "\<dots> \<le> fold max xs (max x seq)" by (rule fold_max_ge_seq)
    finally show ?thesis using True by simp
  next
    case False
    with Cons show ?thesis by simp
  qed
qed

lemma next_rowid_fresh: "next_rowid seq ids \<notin> set ids"
proof
  assume "next_rowid seq ids \<in> set ids"
  then have "next_rowid seq ids \<le> fold max ids seq" by (rule fold_max_ge)
  then show False by (simp add: next_rowid_def)
qed

lemma schema_ok_empty: "schema_ok empty_store"
  by (simp add: schema_ok_def empty_store_def primary_keys_def foreign_keys_def
      unique_emails_def unique_slugs_def)

lemma schema_ok_demo: "schema_ok demo_store_4"
  by code_simp

lemma folded_emails:
  "nocase_key e \<in> set (map nocase_key (concat (map (\<lambda>u. case u_email u of None \<Rightarrow> [] | Some e \<Rightarrow> [e]) us))) \<longleftrightarrow>
   list_ex (\<lambda>u. case u_email u of None \<Rightarrow> False | Some e0 \<Rightarrow> nocase_key e0 = nocase_key e) us"
  by (induction us) (auto split: option.splits)

lemma insert_users_row_schema_ok:
  assumes "schema_ok s" and "insert_users_row now name email hash role s = Inr (i, s')"
  shows "schema_ok s'"
proof -
  from assms(2) have free: "case email of None \<Rightarrow> True | Some e \<Rightarrow> \<not> email_taken s (to_text e)"
    and i: "i = next_rowid (users_seq s) (map u_id (users s))"
    and s': "s' = s\<lparr>users := users s @
                  [\<lparr>u_id = i, u_name = to_text name, u_role = to_text role,
                    u_created_at = now, u_email = map_option to_text email,
                    u_password_hash = map_option to_text hash\<rparr>],
               users_seq := i\<rparr>"
    by (auto simp: insert_users_row_def Let_def split: if_splits option.splits)
  have fresh: "i \<notin> set (map u_id (users s))"
    unfolding i by (rule next_rowid_fresh)
  have pk: "primary_keys s'"
    using assms(1) fresh by (simp add: schema_ok_def primary_keys_def s')
  have fk: "foreign_keys s'"
    using assms(1) by (auto simp: schema_ok_def foreign_keys_def s')
  have em: "unique_emails s'"
  proof (cases email)
    case None
    with assms(1) show ?thesis by (simp add: schema_ok_def unique_emails_def s')
  next
    case (Some e)
    with free have "\<not> email_taken s (to_text e)" by simp
    then have "nocase_key (to_text e) \<notin> set (map nocase_key (concat (map (\<lambda>u. case u_email u of None \<Rightarrow> [] | Some e \<Rightarrow> [e]) (users s))))"
      unfolding email_taken_def using folded_emails [of "to_text e" "users s"] by blast
    with assms(1) Some show ?thesis
      by (simp add: schema_ok_def unique_emails_def s')
  qed
  have sl: "unique_slugs s'"
    using assms(1) by (simp add: schema_ok_def unique_slugs_def s')
  from pk fk em sl show ?thesis by (simp add: schema_ok_def)
qed

lemma createUser_schema_ok:
  "schema_ok s \<Longrightarrow> createUser now a (Some s) = (r, Some s') \<Longrightarrow> schema_ok s'"
  by (auto simp: createUser_def split: sum.splits dest: insert_users_row_schema_ok)

lemma insertUser_schema_ok:
  "schema_ok s \<Longrightarrow> insertUser now name role (Some s) = (r, Some s') \<Longrightarrow> schema_ok s'"
  by (auto simp: insertUser_def split: sum.splits dest: insert_users_row_schema_ok)

lemma insert_contents_row_schema_ok:
  assumes "schema_ok s"
    and "insert_contents_row now title description category img owner slug s = Inr (i, s')"
  shows "schema_ok s'"
proof -
  from assms(2) have free: "\<not> slug_exists s slug"
    and owner: "owner \<in> set (map u_id (users s))"
    and i: "i = next_rowid (contents_seq s) (map c_id (contents s))"
    and s': "s' = s\<lparr>contents := contents s @
                  [\<lparr>c_id = i, c_title = to_text title, c_description = to_text description,
                    c_category = to_text category, c_image_path = to_text img,
                    c_owner_id = owner, c_created_at = now, c_slug = Some (to_text slug)\<rparr>],
               contents_seq := i\<rparr>"
    by (auto simp: insert_contents_row_def Let_def split: if_splits)
  have fresh: "i \<notin> set (map c_id (contents s))"
    unfolding i by (rule next_rowid_fresh)
  have pk: "primary_keys s'"
    using assms(1) fresh by (simp add: schema_ok_def primary_keys_def s')
  have fk: "foreign_keys s'"
    using assms(1) owner by (auto simp: schema_ok_def foreign_keys_def s')
  have em: "unique_emails s'"
    using assms(1) by (simp add: schema_ok_def unique_emails_def s')
  have "to_text slug \<notin> set (concat (map (\<lambda>c. case c_slug c of None \<Rightarrow> [] | Some x \<Rightarrow> [x]) (contents s)))"
    using free by (fastforce simp: slug_exists_def list_ex_iff split: option.splits)
  then have sl: "unique_slugs s'"
    using assms(1) by (simp add: schema_ok_def unique_slugs_def s')
  from pk fk em sl show ?thesis by (simp add: schema_ok_def)
qed

lemma insertContent_schema_ok:
  "schema_ok s \<Longrightarrow> insertContent rt now a (Some s) = (r, Some s') \<Longrightarrow> schema_ok s'"
  by (auto simp: insertContent_def Let_def split: sum.splits dest: insert_contents_row_schema_ok)

lemma updateContent_schema_ok:
  assumes "schema_ok s" and "updateContent a (Some s) = (r, Some s')"
  shows "schema_ok s'"
proof (cases "s' = s")
  case True
  with assms(1) show ?thesis by simp
next
  case False
  let ?g = "\<lambda>c. if c_id c = cu_id a then assign a c else c"
  from assms(2) False have s': "s' = s\<lparr>contents := map ?g (contents s)\<rparr>"
    by (auto simp: updateContent_Some split: if_splits)
  have keep: "map c_id (map ?g (contents s)) = map c_id (contents s)"
    "map c_slug (map ?g (contents s)) = map c_slug (contents s)"
    "map c_owner_id (map ?g (contents s)) = map c_owner_id (contents s)"
    by (simp_all add: assign_def comp_def)
  have pk: "primary_keys s'"
    using assms(1) keep(1) by (simp add: schema_ok_def primary_keys_def s' del: map_map)
  have "\<forall>c\<in>set (map ?g (contents s)). c_owner_id c \<in> set (map u_id (users s))"
    using assms(1) by (auto simp: schema_ok_def foreign_keys_def assign_def)
  then have fk: "foreign_keys s'"
    using assms(1) keep(1) by (simp add: schema_ok_def foreign_keys_def s' del: map_map)
  have em: "unique_emails s'"
    using assms(1) by (simp add: schema_ok_def unique_emails_def s')
  have "map (\<lambda>c. case c_slug c of None \<Rightarrow> [] | Some x \<Rightarrow> [x]) (map ?g (contents s)) =
        map (\<lambda>c. case c_slug c of None \<Rightarrow> [] | Some x \<Rightarrow> [x]) (contents s)"
    by (simp add: assign_def comp_def)
  then have sl: "unique_slugs s'"
    using assms(1) by (simp add: schema_ok_def unique_slugs_def s' del: map_map)
  from pk fk em sl show ?thesis by (simp add: schema_ok_def)
qed

lemma deleteContentById_schema_ok:
  assumes "schema_ok s" and "deleteContentById i (Some s) = (n, Some s')"
  shows "schema_ok s'"
proof -
  let ?gone = "map c_id (filter (\<lambda>c. c_id c = i) (contents s))"
  from assms(2) have s': "s' = s\<lparr>contents := filter (\<lambda>c. c_id c \<noteq> i) (contents s),
            likes := filter (\<lambda>l. l_content_id l \<notin> set ?gone) (likes s),
            favorites := filter (\<lambda>f. f_content_id f \<notin> set ?gone) (favorites s)\<rparr>"
    by (auto simp: deleteContentById_def delete_contents_where_id_def Let_def)
  have pk: "primary_keys s'"
    using assms(1) by (simp add: schema_ok_def primary_keys_def s' distinct_map_filter)
  have fk: "foreign_keys s'"
    using assms(1) by (fastforce simp: schema_ok_def foreign_keys_def s')
  have em: "unique_emails s'"
    using assms(1) by (simp add: schema_ok_def unique_emails_def s')
  have sub: "distinct (concat (map (\<lambda>c. case c_slug c of None \<Rightarrow> [] | Some x \<Rightarrow> [x]) xs)) \<Longrightarrow>
        distinct (concat (map (\<lambda>c. case c_slug c of None \<Rightarrow> [] | Some x \<Rightarrow> [x])
                    (filter (\<lambda>c. c_id c \<noteq> i) xs)))" for xs
    by (induction xs) auto
  have sl: "unique_slugs s'"
    using assms(1) sub [of "contents s"] by (simp add: schema_ok_def unique_slugs_def s')
  from pk fk em sl show ?thesis by (simp add: schema_ok_def)
qed

lemma toggleLike_schema_ok:
  assumes "schema_ok s" and "toggleLike now u c (Some s) = (r, Some s')"
  shows "schema_ok s'"
proof (cases "s' = s")
  case True
  with assms(1) show ?thesis by simp
next
  case False
  show ?thesis
  proof (cases "list_ex (\<lambda>l. l_user_id l = u \<and> l_content_id l = c) (likes s)")
    case True
    with assms(2) have s': "s' = s\<lparr>likes := filter (\<lambda>l. \<not> (l_user_id l = u \<and> l_content_id l = c)) (likes s)\<rparr>"
      by (auto simp: toggleLike_def hasUserLiked_def Let_def)
    with assms(1) show ?thesis
      by (auto simp: schema_ok_def primary_keys_def foreign_keys_def unique_emails_def
          unique_slugs_def distinct_map_filter)
  next
    case nl: False
    with assms(2) False have ok: "u \<in> set (map u_id (users s))" "c \<in> set (map c_id (contents s))"
      and s': "s' = s\<lparr>likes := likes s @ [\<lparr>l_user_id = u, l_content_id = c, l_created_at = now\<rparr>]\<rparr>"
      by (auto simp: toggleLike_def hasUserLiked_def Let_def insert_likes_row_def
          split: if_splits)
    have "(u, c) \<notin> set (map (\<lambda>l. (l_user_id l, l_content_id l)) (likes s))"
      using nl by (auto simp: list_ex_iff)
    with assms(1) ok show ?thesis
      by (auto simp: schema_ok_def primary_keys_def foreign_keys_def unique_emails_def
          unique_slugs_def s')
  qed
qed

lemma toggleFavorite_schema_ok:
  assumes "schema_ok s" and "toggleFavorite now u c (Some s) = (r, Some s')"
  shows "schema_ok s'"
proof (cases "s' = s")
  case True
  with assms(1) show ?thesis by simp
next
  case False
  show ?thesis
  proof (cases "list_ex (\<lambda>f. f_user_id f = u \<and> f_content_id f = c) (favorites s)")
    case True
    with assms(2) have s': "s' = s\<lparr>favorites := filter (\<lambda>f. \<not> (f_user_id f = u \<and> f_content_id f = c)) (favorites s)\<rparr>"
      by (auto simp: toggleFavorite_def isFavorite_def Let_def)
    with assms(1) show ?thesis
      by (auto simp: schema_ok_def primary_keys_def foreign_keys_def unique_emails_def
          unique_slugs_def distinct_map_filter)
  next
    case nl: False
    with assms(2) False have ok: "u \<in> set (map u_id (users s))" "c \<in> set (map c_id (contents s))"
      and s': "s' = s\<lparr>favorites := favorites s @ [\<lparr>f_user_id = u, f_content_id = c, f_created_at = now\<rparr>]\<rparr>"
      by (auto simp: toggleFavorite_def isFavorite_def Let_def insert_favorites_row_def
          split: if_splits)
    have "(u, c) \<notin> set (map (\<lambda>f. (f_user_id f, f_content_id f)) (favorites s))"
      using nl by (auto simp: list_ex_iff)
    with assms(1) ok show ?thesis
      by (auto simp: schema_ok_def primary_keys_def foreign_keys_def unique_emails_def
          unique_slugs_def s')
  qed
qed

lemma insertContent_succeeds:
  assumes "nc_category a \<in> set CATEGORIES" and "nc_ownerId a \<in> set (map u_id (users s))"
  shows "\<exists>i s'. insertContent rt now a (Some s) = (Inr (Some i), Some s')"
  using assms makeUniqueContentSlug_fresh [of s "slugify rt (nc_title a)"]
  by (simp add: insertContent_def insert_contents_row_def Let_def to_text_category)


end
